theory Spec2Isabelle
  imports Complex_Main "HOL-Library.Word"
begin

section \<open>Common data: times, headers, JSON bodies\<close>

text \<open>
  A \<^verbatim>\<open>time.Time\<close> is taken as a count of nanoseconds since the Unix epoch and a
  \<^verbatim>\<open>time.Duration\<close> as a count of nanoseconds, both as integers; the wall clock and
  the monotonic clock of a reading are one number. Go's \<^verbatim>\<open>int\<close>
  is modelled by the unbounded integers and \<^verbatim>\<open>float64\<close> by the reals: the
  conversion \<^verbatim>\<open>float64(n)\<close> is exact for \<^verbatim>\<open>|n| < 2^53\<close>, and the comparisons
  made below against integer bounds are preserved by correctly rounded arithmetic.
\<close>

definition Second :: int where
  "Second = 1000000000"

definition Add :: "int \<Rightarrow> int \<Rightarrow> int" where
  "Add t d = t + d"

definition Sub :: "int \<Rightarrow> int \<Rightarrow> int" where
  "Sub t u = t - u"

definition Seconds :: "int \<Rightarrow> real" where
  "Seconds d = real_of_int d / 1000000000"

definition Unix :: "int \<Rightarrow> int" where
  "Unix t = t div 1000000000"

datatype panic = DivideByZero

text \<open>Go's integer division truncates towards zero and panics on a zero divisor.\<close>

definition go_div :: "int \<Rightarrow> int \<Rightarrow> panic + int" where
  "go_div a b =
     (if b = 0 then Inl DivideByZero
      else Inr (sgn a * sgn b * (\<bar>a\<bar> div \<bar>b\<bar>)))"

text \<open>The conversion \<^verbatim>\<open>int(x)\<close> of a float truncates towards zero.\<close>

definition go_int :: "real \<Rightarrow> int" where
  "go_int x = (if 0 \<le> x then \<lfloor>x\<rfloor> else \<lceil>x\<rceil>)"

text \<open>\<^verbatim>\<open>fmt.Sprintf("%d", n)\<close>: the decimal digits of an integer.\<close>

definition digit_char :: "nat \<Rightarrow> char" where
  "digit_char d = ''0123456789'' ! d"

fun nat_digits :: "nat \<Rightarrow> string" where
  "nat_digits n =
     (if n < 10 then [digit_char n] else nat_digits (n div 10) @ [digit_char (n mod 10)])"

declare nat_digits.simps [simp del]

definition sprintf_d :: "int \<Rightarrow> string" where
  "sprintf_d i = (if i < 0 then CHR ''-'' # nat_digits (nat (- i)) else nat_digits (nat i))"

type_synonym headers = "(string \<times> string) list"

text \<open>
  Setting a header replaces the value stored under that key; a header list therefore
  holds at most one entry per key that was written through \<open>header_set\<close>. Keys are
  taken in the normalised spelling in which the HTTP library stores and looks them up.
\<close>

definition header_set :: "string \<Rightarrow> string \<Rightarrow> headers \<Rightarrow> headers" where
  "header_set k v hs = filter (\<lambda>kv. fst kv \<noteq> k) hs @ [(k, v)]"

definition header_get :: "string \<Rightarrow> headers \<Rightarrow> string" where
  "header_get k hs = (case map_of hs k of None \<Rightarrow> [] | Some v \<Rightarrow> v)"

datatype json = JStr string | JInt int

type_synonym fiber_map = "(string \<times> json) list"

text \<open>A response body: raw bytes (\<^verbatim>\<open>c.Send\<close>) or a JSON object (\<^verbatim>\<open>c.JSON\<close>).\<close>

datatype body = Raw string | Json fiber_map

text \<open>\<^verbatim>\<open>strings.HasPrefix\<close> and \<^verbatim>\<open>strings.TrimPrefix\<close>.\<close>

definition HasPrefix :: "string \<Rightarrow> string \<Rightarrow> bool" where
  "HasPrefix s p = (take (length p) s = p)"

definition TrimPrefix :: "string \<Rightarrow> string \<Rightarrow> string" where
  "TrimPrefix s p = (if HasPrefix s p then drop (length p) s else s)"

text \<open>ASCII letters and case mapping.\<close>

definition lower_letters :: string where
  "lower_letters = ''abcdefghijklmnopqrstuvwxyz''"

definition upper_letters :: string where
  "upper_letters = ''ABCDEFGHIJKLMNOPQRSTUVWXYZ''"

definition to_upper :: "char \<Rightarrow> char" where
  "to_upper c = (case map_of (zip lower_letters upper_letters) c of Some u \<Rightarrow> u | None \<Rightarrow> c)"

definition to_lower :: "char \<Rightarrow> char" where
  "to_lower c = (case map_of (zip upper_letters lower_letters) c of Some l \<Rightarrow> l | None \<Rightarrow> c)"

text \<open>\<^verbatim>\<open>strings.EqualFold\<close> on ASCII text: equality up to the case of letters.\<close>

definition EqualFold :: "string \<Rightarrow> string \<Rightarrow> bool" where
  "EqualFold s t = (map to_lower s = map to_lower t)"

section \<open>Configuration (package config)\<close>

record RouteLimit =
  RequestsPerSec :: int
  BurstSize :: int

record Route =
  Path :: string
  Service :: string
  StripPrefix :: bool
  Methods :: "string list"
  Public :: bool
  RateLimit :: "RouteLimit option"
  CircuitBreaker :: bool

record RateLimitConfig =
  rl_Enabled :: bool
  rl_RequestsPerSec :: int
  rl_BurstSize :: int

record CircuitConfig =
  cb_Enabled :: bool
  MaxRequests :: "32 word"
  FailureThreshold :: "32 word"

text \<open>
  The identity carried by a bearer token (\<^verbatim>\<open>middleware.Claims\<close>, with the two
  time fields of the embedded \<^verbatim>\<open>jwt.RegisteredClaims\<close> that are validated).
\<close>

record Claims =
  UserID :: string
  TenantID :: string
  Email :: string
  Roles :: "string list"
  ExpiresAt :: "int option"
  NotBefore :: "int option"

section \<open>The request context\<close>

text \<open>
  The part of \<^verbatim>\<open>fiber.Ctx\<close> the middleware reads and writes: the request, the
  values stored under \<^verbatim>\<open>c.Locals\<close> keys, and the response being built.
\<close>

record Ctx =
  req_path :: string
  req_method :: string
  req_query :: string
  req_host :: string
  req_protocol :: string
  req_ip :: string
  req_headers :: headers
  req_body :: string
  loc_route :: "Route option"
  loc_service :: "string option"
  loc_isPublic :: "bool option"
  loc_user_id :: "string option"
  loc_tenant_id :: "string option"
  loc_claims :: "(string \<times> Claims) option"
  resp_status :: int
  resp_headers :: headers
  resp_body :: body

definition Set_hdr :: "string \<Rightarrow> string \<Rightarrow> Ctx \<Rightarrow> Ctx" where
  "Set_hdr k v c = c\<lparr>resp_headers := header_set k v (resp_headers c)\<rparr>"

definition Status :: "int \<Rightarrow> Ctx \<Rightarrow> Ctx" where
  "Status s c = c\<lparr>resp_status := s\<rparr>"

definition JSON :: "fiber_map \<Rightarrow> Ctx \<Rightarrow> Ctx" where
  "JSON m c = (Set_hdr ''Content-Type'' ''application/json'' c)\<lparr>resp_body := Json m\<rparr>"

definition Send :: "string \<Rightarrow> Ctx \<Rightarrow> Ctx" where
  "Send b c = c\<lparr>resp_body := Raw b\<rparr>"

definition GetRespHeader :: "string \<Rightarrow> Ctx \<Rightarrow> string" where
  "GetRespHeader k c = header_get k (resp_headers c)"

definition Get_hdr :: "string \<Rightarrow> Ctx \<Rightarrow> string" where
  "Get_hdr k c = header_get k (req_headers c)"

definition Req_Set :: "string \<Rightarrow> string \<Rightarrow> Ctx \<Rightarrow> Ctx" where
  "Req_Set k v c = c\<lparr>req_headers := header_set k v (req_headers c)\<rparr>"

text \<open>
  A middleware either hands the context on to the next handler (\<open>Next\<close>) or answers
  itself (\<open>Done\<close>).
\<close>

datatype flow = Next Ctx | Done Ctx

section \<open>Rate limiter (internal/middleware/ratelimit.go)\<close>

record rateBucket =
  tokens :: real
  lastCheck :: int

record LocalLimiter =
  requests :: "string \<rightharpoonup> rateBucket"

definition min_f :: "real \<Rightarrow> real \<Rightarrow> real" where
  "min_f a b = (if a < b then a else b)"

text \<open>
  \<^verbatim>\<open>LocalLimiter.allow\<close>, with the clock reading \<open>now\<close> as an argument. The limiter
  is returned in every case: the denial branch has already written the bucket when the
  division that computes the reset instant panics.
\<close>

definition allow ::
  "LocalLimiter \<Rightarrow> int \<Rightarrow> string \<Rightarrow> int \<Rightarrow> int \<Rightarrow> LocalLimiter \<times> (panic + bool \<times> int \<times> int)" where
  "allow ll now key rps burst =
     (case requests ll key of
        None \<Rightarrow>
          (ll\<lparr>requests := (requests ll)(key \<mapsto>
              \<lparr>tokens = real_of_int (burst - 1), lastCheck = now\<rparr>)\<rparr>,
           Inr (True, burst - 1, Unix (Add now Second)))
      | Some bucket \<Rightarrow>
          (let elapsed = Seconds (Sub now (lastCheck bucket));
               bucket1 = bucket\<lparr>tokens := min_f (real_of_int burst)
                                      (tokens bucket + elapsed * real_of_int rps),
                                 lastCheck := now\<rparr>
           in if 1 \<le> tokens bucket1 then
                (let bucket2 = bucket1\<lparr>tokens := tokens bucket1 - 1\<rparr>
                 in (ll\<lparr>requests := (requests ll)(key \<mapsto> bucket2)\<rparr>,
                     Inr (True, go_int (tokens bucket2), Unix (Add now Second))))
              else
                (ll\<lparr>requests := (requests ll)(key \<mapsto> bucket1)\<rparr>,
                 (case go_div Second rps of
                    Inl p \<Rightarrow> Inl p
                  | Inr d \<Rightarrow> Inr (False, 0, Unix (Add now d))))))"

text \<open>The stored token count of a key, when the key has a bucket.\<close>

definition stored_tokens :: "LocalLimiter \<Rightarrow> string \<Rightarrow> real option" where
  "stored_tokens ll key = map_option tokens (requests ll key)"

definition empty_limiter :: LocalLimiter where
  "empty_limiter = \<lparr>requests = Map.empty\<rparr>"

text \<open>
  \<^verbatim>\<open>RateLimiter\<close>. The reply of the shared store to the token-bucket script is an
  input of the model: \<open>None\<close> when the call fails, otherwise the three integers
  the script returns.
\<close>

record RateLimiter =
  rl_cfg :: RateLimitConfig
  local :: LocalLimiter
  useRedis :: bool

definition redisAllow ::
  "RateLimiter \<Rightarrow> (int \<times> int \<times> int) option \<Rightarrow> int \<Rightarrow> string \<Rightarrow> int \<Rightarrow> int
     \<Rightarrow> LocalLimiter \<times> (panic + bool \<times> int \<times> int)" where
  "redisAllow rl reply now key rps burst =
     (case reply of
        None \<Rightarrow> allow (local rl) now key rps burst
      | Some (r0, r1, r2) \<Rightarrow> (local rl, Inr (r0 = 1, r1, r2)))"

definition rl_allow ::
  "RateLimiter \<Rightarrow> (int \<times> int \<times> int) option \<Rightarrow> int \<Rightarrow> string \<Rightarrow> int \<Rightarrow> int
     \<Rightarrow> LocalLimiter \<times> (panic + bool \<times> int \<times> int)" where
  "rl_allow rl reply now key rps burst =
     (if useRedis rl then redisAllow rl reply now key rps burst
      else allow (local rl) now key rps burst)"

definition createKey :: "Ctx \<Rightarrow> string" where
  "createKey c =
     (case loc_user_id c of
        Some userID \<Rightarrow> ''ratelimit:'' @ userID @ '':'' @ req_path c
      | None \<Rightarrow> ''ratelimit:ip:'' @ req_ip c @ '':'' @ req_path c)"

text \<open>The rate and burst the middleware uses: the route's override when there is one.\<close>

definition limit_params :: "RateLimiter \<Rightarrow> Ctx \<Rightarrow> int \<times> int" where
  "limit_params rl c =
     (case loc_route c of
        Some route \<Rightarrow>
          (case RateLimit route of
             Some l \<Rightarrow> (RequestsPerSec l, BurstSize l)
           | None \<Rightarrow> (rl_RequestsPerSec (rl_cfg rl), rl_BurstSize (rl_cfg rl)))
      | None \<Rightarrow> (rl_RequestsPerSec (rl_cfg rl), rl_BurstSize (rl_cfg rl)))"

text \<open>
  \<^verbatim>\<open>RateLimiter.Middleware\<close>. \<open>now\<close> is the clock reading inside \<open>allow\<close>, \<open>now2\<close>
  the later reading used for \<^verbatim>\<open>retry_after\<close>.
\<close>

definition RateLimiter_Middleware ::
  "RateLimiter \<Rightarrow> (int \<times> int \<times> int) option \<Rightarrow> int \<Rightarrow> int \<Rightarrow> Ctx
     \<Rightarrow> RateLimiter \<times> (panic + flow)" where
  "RateLimiter_Middleware rl reply now now2 c =
     (if \<not> rl_Enabled (rl_cfg rl) then (rl, Inr (Next c))
      else
        (let (rps, burst) = limit_params rl c;
             key = createKey c;
             (ll, r) = rl_allow rl reply now key rps burst
         in (rl\<lparr>local := ll\<rparr>,
             (case r of
                Inl p \<Rightarrow> Inl p
              | Inr (allowed, remaining, resetTime) \<Rightarrow>
                  (let c1 = Set_hdr ''X-RateLimit-Limit'' (sprintf_d rps) c;
                       c2 = Set_hdr ''X-RateLimit-Remaining'' (sprintf_d remaining) c1;
                       c3 = Set_hdr ''X-RateLimit-Reset'' (sprintf_d resetTime) c2
                   in if \<not> allowed then
                        Inr (Done (JSON [(''error'', JStr ''rate_limit_exceeded''),
                                         (''message'', JStr ''Too many requests, please try again later''),
                                         (''retry_after'', JInt (resetTime - Unix now2))]
                                    (Status 429 c3)))
                      else Inr (Next c3))))))"

text \<open>The context a middleware result carries, whichever way it ends.\<close>

fun flow_ctx :: "flow \<Rightarrow> Ctx" where
  "flow_ctx (Next c) = c"
| "flow_ctx (Done c) = c"

fun is_Done :: "flow \<Rightarrow> bool" where
  "is_Done (Next c) = False"
| "is_Done (Done c) = True"

text \<open>The response headers a middleware result carries, and whether it is a denial.\<close>

definition result_headers :: "RateLimiter \<times> (panic + flow) \<Rightarrow> headers" where
  "result_headers r = (case snd r of Inr f \<Rightarrow> resp_headers (flow_ctx f) | Inl p \<Rightarrow> [])"

definition denied :: "RateLimiter \<times> (panic + flow) \<Rightarrow> bool" where
  "denied r = (case snd r of Inr f \<Rightarrow> is_Done f | Inl p \<Rightarrow> False)"

text \<open>
  Whether a call of \<open>allow\<close> made at instant \<open>t\<close> would find a token, that is,
  would be admitted.
\<close>

definition admitted_at :: "LocalLimiter \<Rightarrow> int \<Rightarrow> string \<Rightarrow> int \<Rightarrow> int \<Rightarrow> bool" where
  "admitted_at ll t key rps burst =
     (case snd (allow ll t key rps burst) of
        Inr (allowed, remaining, resetTime) \<Rightarrow> allowed
      | Inl p \<Rightarrow> False)"

section \<open>Reverse proxy (package proxy)\<close>

record ServiceClient =
  Name :: string
  URL :: string
  HealthPath :: string
  Healthy :: bool

record ServiceProxy =
  services :: "string \<rightharpoonup> ServiceClient"

definition GetService :: "ServiceProxy \<Rightarrow> string \<Rightarrow> ServiceClient option" where
  "GetService p name = services p name"

text \<open>
  \<^verbatim>\<open>http.CanonicalHeaderKey\<close> of Go's standard library: a key made of header-token
  bytes only has its first letter and every letter after a hyphen put in upper case and
  all other letters in lower case; any other key is returned unchanged.
\<close>

definition validHeaderFieldByte :: "char \<Rightarrow> bool" where
  "validHeaderFieldByte c \<longleftrightarrow>
     c \<in> set (lower_letters @ upper_letters @ ''0123456789'' @ ''!#$%&*+-.^_|~''
               @ [CHR 0x27, CHR 0x60])"

definition canon_byte :: "bool \<Rightarrow> char \<Rightarrow> char" where
  "canon_byte upper c =
     (if upper \<and> c \<in> set lower_letters then to_upper c
      else if \<not> upper \<and> c \<in> set upper_letters then to_lower c
      else c)"

fun canon_bytes :: "bool \<Rightarrow> string \<Rightarrow> string" where
  "canon_bytes upper [] = []"
| "canon_bytes upper (c # cs) =
     canon_byte upper c # canon_bytes (canon_byte upper c = CHR ''-'') cs"

definition CanonicalHeaderKey :: "string \<Rightarrow> string" where
  "CanonicalHeaderKey s = (if list_all validHeaderFieldByte s then canon_bytes True s else s)"

definition hopByHopHeaders :: "(string \<times> bool) list" where
  "hopByHopHeaders =
     [(''Connection'', True),
      (''Keep-Alive'', True),
      (''Proxy-Authenticate'', True),
      (''Proxy-Authorization'', True),
      (''Te'', True),
      (''Trailers'', True),
      (''Transfer-Encoding'', True),
      (''Upgrade'', True)]"

text \<open>A key that is missing from a Go map of booleans reads as \<^verbatim>\<open>false\<close>.\<close>

definition isHopByHopHeader :: "string \<Rightarrow> bool" where
  "isHopByHopHeader header =
     (case map_of hopByHopHeaders (CanonicalHeaderKey header) of
        Some b \<Rightarrow> b
      | None \<Rightarrow> False)"

text \<open>The upstream request and response, as the proxy builds and reads them.\<close>

record Request =
  uri :: string
  rq_method :: string
  rq_headers :: headers
  rq_body :: string

record Response =
  StatusCode :: int
  rs_headers :: headers
  rs_body :: string

text \<open>Lines 91 to 104 of \<^verbatim>\<open>Forward\<close>: the target URL.\<close>

definition target_url :: "ServiceClient \<Rightarrow> Ctx \<Rightarrow> string \<Rightarrow> string" where
  "target_url svc c stripPrefix =
     (let path = req_path c;
          path = (if stripPrefix \<noteq> [] then
                    (let path = TrimPrefix path stripPrefix
                     in if path = [] then ''/'' else path)
                  else path);
          queryString = req_query c;
          targetURL = URL svc @ path
      in if queryString \<noteq> [] then targetURL @ ''?'' @ queryString else targetURL)"

text \<open>
  Lines 106 to 136: the upstream request. The client's headers are visited in order and
  copied unless \<open>isHopByHopHeader\<close> holds of the key; then the forwarding headers are
  set.
\<close>

definition copy_request_headers :: "headers \<Rightarrow> headers \<Rightarrow> headers" where
  "copy_request_headers hs acc =
     fold (\<lambda>(key, val) h. if isHopByHopHeader key then h else header_set key val h) hs acc"

definition upstream_request :: "ServiceClient \<Rightarrow> Ctx \<Rightarrow> string \<Rightarrow> Request" where
  "upstream_request svc c stripPrefix =
     (let h = copy_request_headers (req_headers c) [];
          h = header_set ''X-Forwarded-For'' (req_ip c) h;
          h = header_set ''X-Forwarded-Host'' (req_host c) h;
          h = header_set ''X-Forwarded-Proto'' (req_protocol c) h;
          h = header_set ''X-Real-IP'' (req_ip c) h;
          h = header_set ''X-Request-ID'' (GetRespHeader ''X-Request-ID'' c) h
      in \<lparr>uri = target_url svc c stripPrefix,
          rq_method = req_method c,
          rq_headers = h,
          rq_body = (if 0 < length (req_body c) then req_body c else [])\<rparr>)"

text \<open>Lines 146 to 157: the upstream response copied onto the client response.\<close>

definition copy_response_headers :: "headers \<Rightarrow> Ctx \<Rightarrow> Ctx" where
  "copy_response_headers hs c =
     fold (\<lambda>(key, val) c. if isHopByHopHeader key then c else Set_hdr key val c) hs c"

text \<open>
  \<^verbatim>\<open>ServiceProxy.Forward\<close>. The transport call \<^verbatim>\<open>svc.Client.Do\<close> is the argument
  \<open>do\<close>: it answers an upstream request with an error text or a response. The result
  is the request handed to the transport, if the proxy got that far, and the context
  with the client response.
\<close>

definition Forward ::
  "ServiceProxy \<Rightarrow> (Request \<Rightarrow> string + Response) \<Rightarrow> Ctx \<Rightarrow> string \<Rightarrow> string
     \<Rightarrow> Request option \<times> Ctx" where
  "Forward p do c serviceName stripPrefix =
     (case GetService p serviceName of
        None \<Rightarrow>
          (None, JSON [(''error'', JStr (''service '' @ serviceName @ '' not found''))]
                      (Status 502 c))
      | Some svc \<Rightarrow>
          if \<not> Healthy svc then
            (None, JSON [(''error'', JStr (''service '' @ serviceName @ '' is unavailable''))]
                        (Status 503 c))
          else
            (let req = upstream_request svc c stripPrefix
             in case do req of
                  Inl err \<Rightarrow>
                    (Some req, JSON [(''error'', JStr ''upstream request failed''),
                                     (''details'', JStr err)]
                                    (Status 502 c))
                | Inr resp \<Rightarrow>
                    (Some req, Send (rs_body resp)
                                 (Status (StatusCode resp)
                                    (copy_response_headers (rs_headers resp) c)))))"

text \<open>\<^verbatim>\<open>Router.createProxyHandler\<close> (package router).\<close>

definition createProxyHandler ::
  "ServiceProxy \<Rightarrow> (Request \<Rightarrow> string + Response) \<Rightarrow> Route \<Rightarrow> Ctx \<Rightarrow> Request option \<times> Ctx" where
  "createProxyHandler p do route c =
     (let c = c\<lparr>loc_route := Some route,
               loc_isPublic := Some (Public route),
               loc_service := Some (Service route)\<rparr>;
          stripPrefix = (if StripPrefix route then Path route else [])
      in Forward p do c (Service route) stripPrefix)"

text \<open>
  The hop-by-hop header names as the specification lists them; header names are compared
  without regard to case.
\<close>

definition hop_by_hop_names :: "string list" where
  "hop_by_hop_names =
     [''Connection'', ''Keep-Alive'', ''Proxy-Authenticate'', ''Proxy-Authorization'',
      ''TE'', ''Trailers'', ''Transfer-Encoding'', ''Upgrade'']"

definition is_hop_by_hop_name :: "string \<Rightarrow> bool" where
  "is_hop_by_hop_name k = list_ex (EqualFold k) hop_by_hop_names"

text \<open>
  The path that reaches the upstream as the specification words it: the request path,
  with the route's prefix removed when the route strips its prefix, and \<open>/\<close> in place
  of an empty result.
\<close>

definition forwarded_path :: "Route \<Rightarrow> string \<Rightarrow> string" where
  "forwarded_path route path =
     (let p = (if StripPrefix route then TrimPrefix path (Path route) else path)
      in if p = [] then ''/'' else p)"

section \<open>Circuit breaker (internal/middleware/circuit.go)\<close>

text \<open>
  The counters of \<^verbatim>\<open>gobreaker.Counts\<close>, all \<^verbatim>\<open>uint32\<close>, and the three updates
  the breaker library applies to them: one when a request is admitted, one when it
  ends in success, one when it ends in failure.
\<close>

record Counts =
  Requests :: "32 word"
  TotalSuccesses :: "32 word"
  TotalFailures :: "32 word"
  ConsecutiveSuccesses :: "32 word"
  ConsecutiveFailures :: "32 word"

definition no_counts :: Counts where
  "no_counts = \<lparr>Requests = 0, TotalSuccesses = 0, TotalFailures = 0,
                 ConsecutiveSuccesses = 0, ConsecutiveFailures = 0\<rparr>"

definition onRequest :: "Counts \<Rightarrow> Counts" where
  "onRequest n = n\<lparr>Requests := Requests n + 1\<rparr>"

definition onSuccess :: "Counts \<Rightarrow> Counts" where
  "onSuccess n = n\<lparr>TotalSuccesses := TotalSuccesses n + 1,
                   ConsecutiveSuccesses := ConsecutiveSuccesses n + 1,
                   ConsecutiveFailures := 0\<rparr>"

definition onFailure :: "Counts \<Rightarrow> Counts" where
  "onFailure n = n\<lparr>TotalFailures := TotalFailures n + 1,
                   ConsecutiveFailures := ConsecutiveFailures n + 1,
                   ConsecutiveSuccesses := 0\<rparr>"

text \<open>
  The quotient of two \<^verbatim>\<open>uint32\<close> values converted to \<^verbatim>\<open>float64\<close>: not a number
  for \<^verbatim>\<open>0/0\<close>, infinite for a positive value over zero, and otherwise the quotient,
  whose rounding cannot move it across \<^verbatim>\<open>0.5\<close> (a quotient of 32-bit values below
  one half is below it by more than \<^verbatim>\<open>2^-33\<close>).
\<close>

datatype float64 = Finite real | PosInf | NaN

definition f64_div :: "32 word \<Rightarrow> 32 word \<Rightarrow> float64" where
  "f64_div a b =
     (if b = 0 then (if a = 0 then NaN else PosInf)
      else Finite (real (unat a) / real (unat b)))"

fun f64_ge :: "float64 \<Rightarrow> real \<Rightarrow> bool" where
  "f64_ge (Finite x) y = (y \<le> x)"
| "f64_ge PosInf y = True"
| "f64_ge NaN y = False"

text \<open>The \<^verbatim>\<open>ReadyToTrip\<close> function that \<^verbatim>\<open>GetBreaker\<close> gives every new breaker.\<close>

definition ReadyToTrip :: "CircuitConfig \<Rightarrow> Counts \<Rightarrow> bool" where
  "ReadyToTrip cfg counts =
     (let failureRatio = f64_div (TotalFailures counts) (Requests counts)
      in FailureThreshold cfg \<le> Requests counts \<and> f64_ge failureRatio (1 / 2))"

text \<open>
  The breaker of the \<^verbatim>\<open>gobreaker\<close> library, without its clock: the state, the
  counters of the current generation, and the two halves of \<^verbatim>\<open>Execute\<close>. A request
  is refused in the open state and, in the half-open state, once \<^verbatim>\<open>MaxRequests\<close>
  requests have been admitted; the trip function is consulted after a failure in the
  closed state; every change of state clears the counters.
\<close>

datatype State = StateClosed | StateHalfOpen | StateOpen

datatype exec_error = ErrOpenState | ErrTooManyRequests | OtherError

record Breaker =
  state :: State
  counts :: Counts

definition new_breaker :: Breaker where
  "new_breaker = \<lparr>state = StateClosed, counts = no_counts\<rparr>"

definition setState :: "State \<Rightarrow> Breaker \<Rightarrow> Breaker" where
  "setState st b = \<lparr>state = st, counts = no_counts\<rparr>"

definition beforeRequest :: "CircuitConfig \<Rightarrow> Breaker \<Rightarrow> exec_error + Breaker" where
  "beforeRequest cfg b =
     (if state b = StateOpen then Inl ErrOpenState
      else if state b = StateHalfOpen \<and> MaxRequests cfg \<le> Requests (counts b)
        then Inl ErrTooManyRequests
      else Inr (b\<lparr>counts := onRequest (counts b)\<rparr>))"

definition afterRequest :: "CircuitConfig \<Rightarrow> Breaker \<Rightarrow> bool \<Rightarrow> Breaker" where
  "afterRequest cfg b success =
     (if success then
        (case state b of
           StateClosed \<Rightarrow> b\<lparr>counts := onSuccess (counts b)\<rparr>
         | StateHalfOpen \<Rightarrow>
             (let b = b\<lparr>counts := onSuccess (counts b)\<rparr>
              in if MaxRequests cfg \<le> ConsecutiveSuccesses (counts b)
                 then setState StateClosed b else b)
         | StateOpen \<Rightarrow> b)
      else
        (case state b of
           StateClosed \<Rightarrow>
             (let b = b\<lparr>counts := onFailure (counts b)\<rparr>
              in if ReadyToTrip cfg (counts b) then setState StateOpen b else b)
         | StateHalfOpen \<Rightarrow> setState StateOpen b
         | StateOpen \<Rightarrow> b))"

text \<open>
  One observation by a breaker: a request is admitted and ends in success
  (\<open>True\<close>) or failure (\<open>False\<close>); a refused request leaves the breaker as it is.
\<close>

definition observe :: "CircuitConfig \<Rightarrow> Breaker \<Rightarrow> bool \<Rightarrow> Breaker" where
  "observe cfg b ok =
     (case beforeRequest cfg b of
        Inl e \<Rightarrow> b
      | Inr b1 \<Rightarrow> afterRequest cfg b1 ok)"

definition observe_all :: "CircuitConfig \<Rightarrow> Breaker \<Rightarrow> bool list \<Rightarrow> Breaker" where
  "observe_all cfg b obs = foldl (observe cfg) b obs"

text \<open>The counters after a sequence of recorded successes and failures.\<close>

definition record_obs :: "Counts \<Rightarrow> bool \<Rightarrow> Counts" where
  "record_obs n ok = (if ok then onSuccess (onRequest n) else onFailure (onRequest n))"

definition counts_after :: "bool list \<Rightarrow> Counts" where
  "counts_after obs = foldl record_obs no_counts obs"

text \<open>
  The trip condition as the specification words it, on the true numbers of requests and
  failures of a sequence of observations.
\<close>

definition failures :: "bool list \<Rightarrow> nat" where
  "failures obs = length (filter (\<lambda>ok. \<not> ok) obs)"

definition trip_condition :: "nat \<Rightarrow> bool list \<Rightarrow> bool" where
  "trip_condition N obs \<longleftrightarrow>
     N \<le> length obs \<and> 1 / 2 \<le> real (failures obs) / real (length obs)"

text \<open>\<^verbatim>\<open>CircuitBreakerManager\<close> and \<^verbatim>\<open>GetBreaker\<close>.\<close>

record CircuitBreakerManager =
  breakers :: "string \<rightharpoonup> Breaker"
  cm_cfg :: CircuitConfig

definition GetBreaker :: "CircuitBreakerManager \<Rightarrow> string \<Rightarrow> CircuitBreakerManager \<times> Breaker" where
  "GetBreaker m serviceName =
     (case breakers m serviceName of
        Some cb \<Rightarrow> (m, cb)
      | None \<Rightarrow> (m\<lparr>breakers := (breakers m)(serviceName \<mapsto> new_breaker)\<rparr>, new_breaker))"

text \<open>
  \<^verbatim>\<open>CircuitBreakerManager.Middleware\<close>. The rest of the pipeline is the argument
  \<open>next\<close>: it turns the context into the context with the response, and says whether
  it returned an error. The result says which way the request went: \<open>Direct\<close> when
  the middleware called \<^verbatim>\<open>c.Next()\<close> itself, \<open>ViaBreaker\<close> when it handed the call to
  the breaker's \<^verbatim>\<open>Execute\<close>.
\<close>

datatype cb_path = Direct | ViaBreaker

definition service_unavailable_body :: "string \<Rightarrow> fiber_map" where
  "service_unavailable_body serviceName =
     [(''error'', JStr ''service_unavailable''),
      (''message'', JStr ''Service temporarily unavailable, please try again later''),
      (''service'', JStr serviceName)]"

definition too_many_requests_body :: "string \<Rightarrow> fiber_map" where
  "too_many_requests_body serviceName =
     [(''error'', JStr ''too_many_requests''),
      (''message'', JStr ''Service is recovering, please try again''),
      (''service'', JStr serviceName)]"

definition Execute ::
  "CircuitConfig \<Rightarrow> Breaker \<Rightarrow> (Ctx \<Rightarrow> Ctx \<times> bool) \<Rightarrow> Ctx \<Rightarrow> Breaker \<times> Ctx \<times> exec_error option" where
  "Execute cfg cb next c =
     (case beforeRequest cfg cb of
        Inl e \<Rightarrow> (cb, c, Some e)
      | Inr cb1 \<Rightarrow>
          (let (c1, err) = next c;
               failed = (500 \<le> resp_status c1 \<or> err)
           in (afterRequest cfg cb1 (\<not> failed), c1, if failed then Some OtherError else None)))"

definition CircuitBreakerManager_Middleware ::
  "CircuitBreakerManager \<Rightarrow> (Ctx \<Rightarrow> Ctx \<times> bool) \<Rightarrow> Ctx
     \<Rightarrow> CircuitBreakerManager \<times> cb_path \<times> Ctx" where
  "CircuitBreakerManager_Middleware m next c =
     (if \<not> cb_Enabled (cm_cfg m) then (m, Direct, fst (next c))
      else
        (case loc_service c of
           None \<Rightarrow> (m, Direct, fst (next c))
         | Some serviceName \<Rightarrow>
             if serviceName = [] \<or> serviceName = ''gateway'' then (m, Direct, fst (next c))
             else if (case loc_route c of Some route \<Rightarrow> \<not> CircuitBreaker route | None \<Rightarrow> False)
               then (m, Direct, fst (next c))
             else
               (let (m1, cb) = GetBreaker m serviceName;
                    (cb1, c1, err) = Execute (cm_cfg m) cb next c;
                    m2 = m1\<lparr>breakers := (breakers m1)(serviceName \<mapsto> cb1)\<rparr>
                in case err of
                     Some ErrOpenState \<Rightarrow>
                       (m2, ViaBreaker, JSON (service_unavailable_body serviceName) (Status 503 c1))
                   | Some ErrTooManyRequests \<Rightarrow>
                       (m2, ViaBreaker, JSON (too_many_requests_body serviceName) (Status 503 c1))
                   | Some OtherError \<Rightarrow> (m2, ViaBreaker, c1)
                   | None \<Rightarrow> (m2, ViaBreaker, c1))))"

text \<open>
  The two conditions the specification puts on a wrapped request: the context names a
  service other than the gateway itself, and the resolved route asks for the breaker.
\<close>

definition service_is_upstream :: "Ctx \<Rightarrow> bool" where
  "service_is_upstream c =
     (case loc_service c of Some s \<Rightarrow> s \<noteq> [] \<and> s \<noteq> ''gateway'' | None \<Rightarrow> False)"

definition route_has_breaker :: "Ctx \<Rightarrow> bool" where
  "route_has_breaker c = (case loc_route c of Some route \<Rightarrow> CircuitBreaker route | None \<Rightarrow> False)"

section \<open>Authenticator (internal/middleware/auth.go)\<close>

record AuthConfig =
  JWTSecret :: string
  PublicPaths :: "string \<rightharpoonup> string list"
  HeaderName :: string
  TokenPrefix :: string
  ContextKey :: string
  SkipPrefixes :: "string list"

definition DefaultAuthConfig :: "string \<Rightarrow> AuthConfig" where
  "DefaultAuthConfig secret =
     \<lparr>JWTSecret = secret,
      PublicPaths = Map.empty,
      HeaderName = ''Authorization'',
      TokenPrefix = ''Bearer '',
      ContextKey = ''user'',
      SkipPrefixes = [''/health'', ''/ready'', ''/live'', ''/metrics'']\<rparr>"

text \<open>
  The token library (\<^verbatim>\<open>golang-jwt\<close>), as far as \<open>validateToken\<close> depends on it. A
  decoded token says whether its signing method is an HMAC method and carries its
  claims. Decoding a token string (\<open>decode\<close>) and checking a token's signature under a
  key (\<open>verify\<close>) are arguments of the model. \<open>ParseWithClaims\<close> decodes, asks the
  caller's key function for the key, checks the signature and validates the registered
  time claims: the token must not be expired (\<open>now < exp\<close>) and must already be valid
  (\<open>nbf \<le> now\<close>). \<open>now\<close> stands for the clock readings taken while one request is
  authenticated.
\<close>

record Token =
  method_is_hmac :: bool
  token_claims :: Claims
  Valid :: bool

datatype parse_error =
  Malformed | Unverifiable | SignatureInvalid | Expired | NotValidYet

definition ParseWithClaims ::
  "(string \<Rightarrow> Token option) \<Rightarrow> (Token \<Rightarrow> string \<Rightarrow> bool) \<Rightarrow> int
     \<Rightarrow> string \<Rightarrow> (Token \<Rightarrow> string + string) \<Rightarrow> parse_error + Token" where
  "ParseWithClaims decode verify now tokenString keyFunc =
     (case decode tokenString of
        None \<Rightarrow> Inl Malformed
      | Some token \<Rightarrow>
          (case keyFunc token of
             Inl e \<Rightarrow> Inl Unverifiable
           | Inr key \<Rightarrow>
               if \<not> verify token key then Inl SignatureInvalid
               else if (case ExpiresAt (token_claims token) of
                          Some e \<Rightarrow> \<not> now < e | None \<Rightarrow> False)
                 then Inl Expired
               else if (case NotBefore (token_claims token) of
                          Some nbf \<Rightarrow> now < nbf | None \<Rightarrow> False)
                 then Inl NotValidYet
               else Inr (token\<lparr>Valid := True\<rparr>)))"

text \<open>
  The key function \<open>validateToken\<close> passes to the library: it refuses a token whose
  signing method is not an HMAC method and otherwise answers with the secret.
\<close>

definition keyFunc :: "string \<Rightarrow> Token \<Rightarrow> string + string" where
  "keyFunc secret token =
     (if \<not> method_is_hmac token then Inl ''Invalid signing method'' else Inr secret)"

text \<open>\<^verbatim>\<open>validateToken\<close>: the error text or the claims.\<close>

definition validateToken ::
  "(string \<Rightarrow> Token option) \<Rightarrow> (Token \<Rightarrow> string \<Rightarrow> bool) \<Rightarrow> int
     \<Rightarrow> string \<Rightarrow> string \<Rightarrow> string + Claims" where
  "validateToken decode verify now tokenString secret =
     (case ParseWithClaims decode verify now tokenString (keyFunc secret) of
        Inl err \<Rightarrow> Inl ''Invalid token''
      | Inr token \<Rightarrow>
          if \<not> Valid token then Inl ''Invalid token claims''
          else if (case ExpiresAt (token_claims token) of
                     Some e \<Rightarrow> e < now | None \<Rightarrow> False)
            then Inl ''Token expired''
          else Inr (token_claims token))"

definition unauthorized :: "string \<Rightarrow> Ctx \<Rightarrow> Ctx" where
  "unauthorized msg c =
     JSON [(''error'', JStr ''unauthorized''), (''message'', JStr msg)] (Status 401 c)"

text \<open>\<^verbatim>\<open>strings.Join(roles, ",")\<close>.\<close>

fun Join :: "string list \<Rightarrow> string \<Rightarrow> string" where
  "Join [] sep = []"
| "Join [x] sep = x"
| "Join (x # y # ys) sep = x @ sep @ Join (y # ys) sep"

text \<open>\<^verbatim>\<open>Auth\<close>: the middleware built from an \<open>AuthConfig\<close>.\<close>

definition Auth ::
  "AuthConfig \<Rightarrow> (string \<Rightarrow> Token option) \<Rightarrow> (Token \<Rightarrow> string \<Rightarrow> bool) \<Rightarrow> int \<Rightarrow> Ctx \<Rightarrow> flow" where
  "Auth acfg decode verify now c =
     (let path = req_path c; method = req_method c
      in if list_ex (\<lambda>prefix. HasPrefix path prefix) (SkipPrefixes acfg) then Next c
         else if loc_isPublic c = Some True then Next c
         else if (case PublicPaths acfg path of
                    Some methods \<Rightarrow> list_ex (\<lambda>m. EqualFold m method) methods
                  | None \<Rightarrow> False) then Next c
         else
           (let authHeader = Get_hdr (HeaderName acfg) c
            in if authHeader = [] then Done (unauthorized ''Missing authorization header'' c)
               else
                 (let tokenString = TrimPrefix authHeader (TokenPrefix acfg)
                  in if tokenString = authHeader
                       then Done (unauthorized ''Invalid authorization format'' c)
                     else
                       (case validateToken decode verify now tokenString (JWTSecret acfg) of
                          Inl err \<Rightarrow> Done (unauthorized err c)
                        | Inr claims \<Rightarrow>
                            (let c = c\<lparr>loc_claims := Some (ContextKey acfg, claims),
                                      loc_user_id := Some (UserID claims),
                                      loc_tenant_id := Some (TenantID claims)\<rparr>;
                                 c = Req_Set ''X-User-ID'' (UserID claims) c;
                                 c = Req_Set ''X-Tenant-ID'' (TenantID claims) c;
                                 c = Req_Set ''X-User-Email'' (Email claims) c;
                                 c = (if 0 < length (Roles claims)
                                      then Req_Set ''X-User-Roles'' (Join (Roles claims) '','') c
                                      else c)
                             in Next c)))))"

text \<open>\<^verbatim>\<open>NewAuthMiddleware\<close>: the public paths are read off the route table.\<close>

definition NewAuthMiddleware :: "string \<Rightarrow> Route list \<Rightarrow> AuthConfig" where
  "NewAuthMiddleware secret routes =
     fold (\<lambda>route a. if Public route
                      then a\<lparr>PublicPaths := (PublicPaths a)(Path route \<mapsto> Methods route)\<rparr>
                      else a)
          routes (DefaultAuthConfig secret)"

text \<open>
  A request is protected when its path has no configured skip prefix and its route is
  not public, neither by the flag the router stores nor by the table of public paths.
\<close>

definition protected :: "AuthConfig \<Rightarrow> Ctx \<Rightarrow> bool" where
  "protected acfg c \<longleftrightarrow>
     \<not> list_ex (\<lambda>prefix. HasPrefix (req_path c) prefix) (SkipPrefixes acfg)
     \<and> loc_isPublic c \<noteq> Some True
     \<and> \<not> (case PublicPaths acfg (req_path c) of
             Some methods \<Rightarrow> list_ex (\<lambda>m. EqualFold m (req_method c)) methods
           | None \<Rightarrow> False)"

text \<open>A 401 answer whose JSON body has the error kind \<open>unauthorized\<close>.\<close>

definition is_unauthorized :: "flow \<Rightarrow> bool" where
  "is_unauthorized f =
     (case f of
        Done c \<Rightarrow> resp_status c = 401
                  \<and> (case resp_body c of
                        Json m \<Rightarrow> map_of m ''error'' = Some (JStr ''unauthorized'')
                      | Raw b \<Rightarrow> False)
      | Next c \<Rightarrow> False)"

section \<open>Example values\<close>

definition ctx0 :: Ctx where
  "ctx0 = \<lparr>req_path = ''/api/v1/users'', req_method = ''GET'', req_query = [],
            req_host = ''gw.example'', req_protocol = ''http'', req_ip = ''10.0.0.7'',
            req_headers = [], req_body = [],
            loc_route = None, loc_service = None, loc_isPublic = None,
            loc_user_id = None, loc_tenant_id = None, loc_claims = None,
            resp_status = 200, resp_headers = [], resp_body = Raw []\<rparr>"

definition limiter0 :: RateLimiter where
  "limiter0 = \<lparr>rl_cfg = \<lparr>rl_Enabled = True, rl_RequestsPerSec = 1, rl_BurstSize = 1\<rparr>,
                local = empty_limiter, useRedis = False\<rparr>"

definition proxy0 :: ServiceProxy where
  "proxy0 = \<lparr>services =
     [''auth'' \<mapsto> \<lparr>Name = ''auth'', URL = ''http://localhost:5000'',
                      HealthPath = ''/api/health'', Healthy = True\<rparr>,
      ''notifier'' \<mapsto> \<lparr>Name = ''notifier'', URL = ''http://localhost:5001'',
                          HealthPath = ''/api/health'', Healthy = False\<rparr>]\<rparr>"

definition ctx1 :: Ctx where
  "ctx1 = \<lparr>req_path = ''/api/v1/auth/me'', req_method = ''GET'', req_query = ''x=1'',
            req_host = ''gw.example'', req_protocol = ''http'', req_ip = ''10.0.0.7'',
            req_headers = [(''Connection'', ''keep-alive''), (''te'', ''trailers''),
                           (''Accept'', ''text/plain'')],
            req_body = [],
            loc_route = None, loc_service = None, loc_isPublic = None,
            loc_user_id = None, loc_tenant_id = None, loc_claims = None,
            resp_status = 200, resp_headers = [], resp_body = Raw []\<rparr>"

definition do_ok :: "Request \<Rightarrow> string + Response" where
  "do_ok req = Inr \<lparr>StatusCode = 404,
                    rs_headers = [(''Transfer-Encoding'', ''chunked''),
                                  (''Content-Type'', ''text/plain'')],
                    rs_body = ''no such user''\<rparr>"

definition do_fail :: "Request \<Rightarrow> string + Response" where
  "do_fail req = Inl ''connection refused''"

definition route_auth :: Route where
  "route_auth = \<lparr>Path = ''/api/v1/auth'', Service = ''auth'', StripPrefix = True,
                  Methods = [''GET'', ''POST''], Public = False, RateLimit = None,
                  CircuitBreaker = True\<rparr>"

definition cfg5 :: CircuitConfig where
  "cfg5 = \<lparr>cb_Enabled = True, MaxRequests = 5, FailureThreshold = 5\<rparr>"

definition next_ok :: "Ctx \<Rightarrow> Ctx \<times> bool" where
  "next_ok c = (Send ''ok'' (Status 200 c), False)"

definition mgr0 :: CircuitBreakerManager where
  "mgr0 = \<lparr>breakers = Map.empty, cm_cfg = cfg5\<rparr>"

definition mgr_open :: CircuitBreakerManager where
  "mgr_open = \<lparr>breakers = [''auth'' \<mapsto> \<lparr>state = StateOpen, counts = no_counts\<rparr>],
               cm_cfg = cfg5\<rparr>"

definition mgr_half :: CircuitBreakerManager where
  "mgr_half = \<lparr>breakers = [''auth'' \<mapsto> \<lparr>state = StateHalfOpen,
                                         counts = no_counts\<lparr>Requests := 5\<rparr>\<rparr>],
               cm_cfg = cfg5\<rparr>"

definition ctx_auth :: Ctx where
  "ctx_auth = ctx0\<lparr>loc_service := Some ''auth''\<rparr>"

definition tok_good :: Token where
  "tok_good = \<lparr>method_is_hmac = True,
               token_claims = \<lparr>UserID = ''u1'', TenantID = ''t1'', Email = ''u1@example.org'',
                                Roles = [''admin'', ''dev''],
                                ExpiresAt = Some 2000000000000000000, NotBefore = None\<rparr>,
               Valid = False\<rparr>"

definition tok_old :: Token where
  "tok_old = tok_good\<lparr>token_claims := (token_claims tok_good)\<lparr>ExpiresAt := Some 1000\<rparr>\<rparr>"

definition decode0 :: "string \<Rightarrow> Token option" where
  "decode0 ts = (if ts = ''good'' then Some tok_good
                 else if ts = ''old'' then Some tok_old else None)"

definition verify0 :: "Token \<Rightarrow> string \<Rightarrow> bool" where
  "verify0 tok key = (key = ''s3cret'')"

definition with_authorization :: "string \<Rightarrow> Ctx" where
  "with_authorization h = ctx0\<lparr>req_headers := [(''Authorization'', h)]\<rparr>"

section \<open>Auxiliary facts\<close>

lemma sprintf_d_examples:
  "sprintf_d 11 = ''11''" "sprintf_d 1 = ''1''" "sprintf_d 0 = ''0''"
  by (simp_all add: sprintf_d_def nat_digits.simps digit_char_def)

lemma map_of_filter_key: "map_of (filter (\<lambda>kv. fst kv \<noteq> k) hs) k = None"
  by (induction hs) auto

lemma map_of_filter_other:
  "k' \<noteq> k \<Longrightarrow> map_of (filter (\<lambda>kv. fst kv \<noteq> k) hs) k' = map_of hs k'"
  by (induction hs) auto

lemma header_get_set_same: "header_get k (header_set k v hs) = v"
  by (simp add: header_get_def header_set_def map_add_def map_of_filter_key)

lemma header_get_set_other:
  "k' \<noteq> k \<Longrightarrow> header_get k' (header_set k v hs) = header_get k' hs"
  by (simp add: header_get_def header_set_def map_add_def map_of_filter_other
      split: option.splits)

lemma go_div_Second_pos: "1 \<le> b \<Longrightarrow> go_div Second b = Inr (Second div b)"
  by (simp add: go_div_def Second_def)

section \<open>Properties of the rate limiter\<close>

text \<open>
  C10. For a key that has no bucket, \<open>allow\<close> admits the call whatever \<open>burst\<close> is,
  creates the bucket with \<open>burst - 1\<close> tokens and reports \<open>burst - 1\<close> as remaining;
  with \<open>burst = 0\<close> the call is admitted and the stored count is negative.
\<close>

theorem allow_first_call:
  "requests ll key = None \<Longrightarrow>
     snd (allow ll now key rps burst) = Inr (True, burst - 1, Unix (Add now Second))
     \<and> stored_tokens (fst (allow ll now key rps burst)) key = Some (real_of_int (burst - 1))
     \<and> (burst = 0 \<longrightarrow>
          snd (allow ll now key rps burst) = Inr (True, - 1, Unix (Add now Second))
          \<and> stored_tokens (fst (allow ll now key rps burst)) key = Some (- 1))"
  by (simp add: allow_def stored_tokens_def)

theorem allow_first_call_witness:
  "requests empty_limiter ''k'' = None
   \<and> snd (allow empty_limiter 1500000000 ''k'' 1 0) = Inr (True, - 1, 2)
   \<and> stored_tokens (fst (allow empty_limiter 1500000000 ''k'' 1 0)) ''k'' = Some (- 1)"
proof -
  have h: "requests empty_limiter ''k'' = None"
    by (simp add: empty_limiter_def)
  show ?thesis
    using h allow_first_call [OF h, of 1500000000 1 0]
    by (simp add: Unix_def Add_def Second_def)
qed

lemma first_request_limiter0:
  "fst (RateLimiter_Middleware limiter0 None 10200000000 10200000000 ctx0)
   = limiter0\<lparr>local := \<lparr>requests =
        [''ratelimit:ip:10.0.0.7:/api/v1/users'' \<mapsto> \<lparr>tokens = 0, lastCheck = 10200000000\<rparr>]\<rparr>\<rparr>"
  by (simp add: RateLimiter_Middleware_def limiter0_def ctx0_def limit_params_def createKey_def
      rl_allow_def allow_def empty_limiter_def)

text \<open>
  One call of the local limiter, seen from outside: with \<open>rps \<ge> 1\<close>, \<open>burst \<ge> 0\<close>
  and a bucket (if any) that holds a non-negative count written no later than \<open>now\<close>,
  the call returns, reports the floor of the count it stored, and reports as reset
  instant the Unix second of \<open>now + 1 s\<close> when it admits and of \<open>now + 1 s / rps\<close> when
  it denies.
\<close>

lemma allow_local_result:
  assumes "1 \<le> rps" and "0 \<le> burst"
    and "\<forall>b. requests ll key = Some b \<longrightarrow> 0 \<le> tokens b \<and> lastCheck b \<le> now"
  shows "\<exists>allowed t. snd (allow ll now key rps burst)
             = Inr (allowed, \<lfloor>t\<rfloor>, Unix (Add now (if allowed then Second else Second div rps)))
           \<and> stored_tokens (fst (allow ll now key rps burst)) key = Some t"
proof (cases "requests ll key")
  case None
  then show ?thesis
    by (intro exI [of _ True] exI [of _ "real_of_int (burst - 1)"])
       (simp add: allow_def stored_tokens_def)
next
  case (Some b)
  with assms(3) have b: "0 \<le> tokens b" "lastCheck b \<le> now" by auto
  have e: "0 \<le> Seconds (Sub now (lastCheck b)) * real_of_int rps"
    using b(2) assms(1) by (simp add: Seconds_def Sub_def)
  define r where
    "r = min_f (real_of_int burst) (tokens b + Seconds (Sub now (lastCheck b)) * real_of_int rps)"
  have r0: "0 \<le> r" using b(1) e assms(2) by (simp add: r_def min_f_def)
  show ?thesis
  proof (cases "1 \<le> r")
    case True
    then show ?thesis using Some
      by (intro exI [of _ True] exI [of _ "r - 1"])
         (simp add: allow_def Let_def stored_tokens_def r_def [symmetric] go_int_def)
  next
    case False
    then have "\<lfloor>r\<rfloor> = 0" using r0 by linarith
    then show ?thesis using Some False assms(1)
      by (intro exI [of _ False] exI [of _ r])
         (simp add: allow_def Let_def stored_tokens_def r_def [symmetric] go_div_Second_pos)
  qed
qed

text \<open>
  The token count stays in \<open>[0, burst]\<close> across a call when \<open>burst \<ge> 1\<close>, the rate is
  not negative and the clock does not run backwards.
\<close>

lemma allow_keeps_range:
  assumes "1 \<le> burst" and "0 \<le> rps"
    and "\<forall>b. requests ll key = Some b \<longrightarrow> 0 \<le> tokens b \<and> lastCheck b \<le> now"
  shows "\<exists>t. stored_tokens (fst (allow ll now key rps burst)) key = Some t
            \<and> 0 \<le> t \<and> t \<le> real_of_int burst"
proof (cases "requests ll key")
  case None
  then show ?thesis using assms(1) by (simp add: allow_def stored_tokens_def)
next
  case (Some b)
  with assms(3) have b: "0 \<le> tokens b" "lastCheck b \<le> now" by auto
  have e: "0 \<le> Seconds (Sub now (lastCheck b)) * real_of_int rps"
    using b(2) assms(2) by (simp add: Seconds_def Sub_def)
  show ?thesis using Some b(1) e assms(1)
    by (auto simp: allow_def Let_def stored_tokens_def min_f_def split: sum.splits)
qed

text \<open>
  C3. The stored token count is meant to lie in \<open>[0, burst]\<close> after every call. The
  first call for a key stores \<open>burst - 1\<close> without testing it: with \<open>burst = 0\<close> the
  call is admitted and the bucket holds \<open>-1\<close>, outside \<open>[0, 0]\<close>.
\<close>

theorem allow_burst_zero_out_of_range:
  "stored_tokens (fst (allow empty_limiter 1500000000 ''k'' 1 0)) ''k'' = Some (- 1)
   \<and> snd (allow empty_limiter 1500000000 ''k'' 1 0) = Inr (True, - 1, 2)
   \<and> \<not> (0 \<le> (- 1 :: real) \<and> (- 1 :: real) \<le> real_of_int 0)"
  by (simp add: allow_def empty_limiter_def stored_tokens_def Unix_def Add_def Second_def)

text \<open>
  C4, as amended. With limiting enabled and the local limiter deciding (no shared store,
  or the shared store failing), \<open>rps \<ge> 1\<close>, \<open>burst \<ge> 0\<close> and a bucket that holds a
  non-negative count written no later than \<open>now\<close>, the response carries
  \<^verbatim>\<open>X-RateLimit-Limit\<close> = \<open>rps\<close>, \<^verbatim>\<open>X-RateLimit-Remaining\<close> = the floor of the
  bucket's token count after the call, and \<^verbatim>\<open>X-RateLimit-Reset\<close> = the Unix second
  of \<open>now + 1 s\<close> for an admitted request and of \<open>now + 1 s / rps\<close> (integer division of
  nanoseconds) for a denied one.
\<close>

theorem ratelimit_headers:
  assumes "rl_Enabled (rl_cfg rl)"
    and "\<not> useRedis rl \<or> reply = None"
    and "limit_params rl c = (rps, burst)"
    and "1 \<le> rps" and "0 \<le> burst"
    and "\<forall>b. requests (local rl) (createKey c) = Some b \<longrightarrow> 0 \<le> tokens b \<and> lastCheck b \<le> now"
  shows "\<exists>t. stored_tokens (local (fst (RateLimiter_Middleware rl reply now now2 c))) (createKey c)
            = Some t
      \<and> header_get ''X-RateLimit-Limit''
            (result_headers (RateLimiter_Middleware rl reply now now2 c)) = sprintf_d rps
      \<and> header_get ''X-RateLimit-Remaining''
            (result_headers (RateLimiter_Middleware rl reply now now2 c)) = sprintf_d \<lfloor>t\<rfloor>
      \<and> header_get ''X-RateLimit-Reset''
            (result_headers (RateLimiter_Middleware rl reply now now2 c))
          = sprintf_d (Unix (Add now
              (if denied (RateLimiter_Middleware rl reply now now2 c)
               then Second div rps else Second)))"
proof -
  have loc: "rl_allow rl reply now (createKey c) rps burst
               = allow (local rl) now (createKey c) rps burst"
    using assms(2) by (auto simp: rl_allow_def redisAllow_def)
  obtain allowed t where
    r: "snd (allow (local rl) now (createKey c) rps burst)
          = Inr (allowed, \<lfloor>t\<rfloor>, Unix (Add now (if allowed then Second else Second div rps)))"
    and t: "stored_tokens (fst (allow (local rl) now (createKey c) rps burst)) (createKey c)
          = Some t"
    using allow_local_result [OF assms(4,5,6)] by blast
  obtain ll where a: "allow (local rl) now (createKey c) rps burst
     = (ll, Inr (allowed, \<lfloor>t\<rfloor>, Unix (Add now (if allowed then Second else Second div rps))))"
    using r by (cases "allow (local rl) now (createKey c) rps burst") simp
  have t': "stored_tokens ll (createKey c) = Some t" using t a by simp
  show ?thesis
    using assms(1,3) loc a t'
    by (cases allowed)
       (simp_all add: RateLimiter_Middleware_def result_headers_def denied_def Set_hdr_def
          JSON_def Status_def header_get_set_same header_get_set_other)
qed

text \<open>
  The witness: the second of two requests that arrive at 10.2 s with \<open>rps = 1\<close> and
  \<open>burst = 1\<close>; it is denied, with limit 1, remaining 0 and reset 11.
\<close>

theorem ratelimit_headers_witness:
  "header_get ''X-RateLimit-Limit''
      (result_headers (RateLimiter_Middleware
         (fst (RateLimiter_Middleware limiter0 None 10200000000 10200000000 ctx0))
         None 10200000000 10200000000 ctx0)) = ''1''
   \<and> header_get ''X-RateLimit-Remaining''
      (result_headers (RateLimiter_Middleware
         (fst (RateLimiter_Middleware limiter0 None 10200000000 10200000000 ctx0))
         None 10200000000 10200000000 ctx0)) = ''0''
   \<and> header_get ''X-RateLimit-Reset''
      (result_headers (RateLimiter_Middleware
         (fst (RateLimiter_Middleware limiter0 None 10200000000 10200000000 ctx0))
         None 10200000000 10200000000 ctx0)) = ''11''
   \<and> denied (RateLimiter_Middleware
         (fst (RateLimiter_Middleware limiter0 None 10200000000 10200000000 ctx0))
         None 10200000000 10200000000 ctx0)"
proof -
  let ?rl = "fst (RateLimiter_Middleware limiter0 None 10200000000 10200000000 ctx0)"
  have rl: "?rl = limiter0\<lparr>local := \<lparr>requests =
        [''ratelimit:ip:10.0.0.7:/api/v1/users'' \<mapsto> \<lparr>tokens = 0, lastCheck = 10200000000\<rparr>]\<rparr>\<rparr>"
    by (rule first_request_limiter0)
  have h1: "rl_Enabled (rl_cfg ?rl)" unfolding rl by (simp add: limiter0_def)
  have h2: "\<not> useRedis ?rl \<or> (None :: (int \<times> int \<times> int) option) = None" by simp
  have h3: "limit_params ?rl ctx0 = (1, 1)"
    unfolding rl by (simp add: limiter0_def limit_params_def ctx0_def)
  have h6: "\<forall>b. requests (local ?rl) (createKey ctx0) = Some b
              \<longrightarrow> 0 \<le> tokens b \<and> lastCheck b \<le> 10200000000"
    unfolding rl by (simp add: createKey_def ctx0_def)
  have d: "denied (RateLimiter_Middleware ?rl None 10200000000 10200000000 ctx0)"
    unfolding rl
    by (simp add: RateLimiter_Middleware_def limiter0_def ctx0_def limit_params_def
        createKey_def rl_allow_def allow_def denied_def min_f_def Seconds_def Sub_def
        go_div_def Second_def)
  have s: "stored_tokens
             (local (fst (RateLimiter_Middleware ?rl None 10200000000 10200000000 ctx0)))
             (createKey ctx0) = Some 0"
    unfolding rl
    by (simp add: RateLimiter_Middleware_def limiter0_def ctx0_def limit_params_def
        createKey_def rl_allow_def allow_def stored_tokens_def min_f_def Seconds_def Sub_def
        go_div_def Second_def)
  from ratelimit_headers [OF h1 h2 h3 _ _ h6, of 10200000000] d s
  show ?thesis
    by (simp add: sprintf_d_examples Unix_def Add_def Second_def)
qed

text \<open>
  The claim as first stated fails on the reset instant. Two requests arrive at 10.2 s
  with \<open>rps = 1\<close> and \<open>burst = 1\<close>. The second is denied and told to come back at
  second 11; a call made at 11.0 s finds 0.8 tokens and is denied as well.
\<close>

theorem reset_header_counterexample:
  "header_get ''X-RateLimit-Reset''
      (result_headers (RateLimiter_Middleware
         (fst (RateLimiter_Middleware limiter0 None 10200000000 10200000000 ctx0))
         None 10200000000 10200000000 ctx0)) = ''11''
   \<and> \<not> admitted_at
         (local (fst (RateLimiter_Middleware
            (fst (RateLimiter_Middleware limiter0 None 10200000000 10200000000 ctx0))
            None 10200000000 10200000000 ctx0)))
         11000000000 (createKey ctx0) 1 1
   \<and> stored_tokens (fst (allow
         (local (fst (RateLimiter_Middleware
            (fst (RateLimiter_Middleware limiter0 None 10200000000 10200000000 ctx0))
            None 10200000000 10200000000 ctx0)))
         11000000000 (createKey ctx0) 1 1)) (createKey ctx0) = Some (4 / 5)"
  unfolding first_request_limiter0
  by (simp add: RateLimiter_Middleware_def limiter0_def ctx0_def limit_params_def createKey_def
      rl_allow_def allow_def empty_limiter_def result_headers_def admitted_at_def
      min_f_def Seconds_def Sub_def Add_def Unix_def Second_def go_div_def stored_tokens_def
      Set_hdr_def header_set_def header_get_def JSON_def Status_def sprintf_d_examples)

lemma allow_panics_char:
  "snd (allow ll now key rps burst) = Inl DivideByZero \<longleftrightarrow>
        rps = 0 \<and> (\<exists>b. requests ll key = Some b
           \<and> \<not> 1 \<le> min_f (real_of_int burst)
                       (tokens b + Seconds (Sub now (lastCheck b)) * real_of_int rps))"
  by (auto simp: allow_def Let_def go_div_def split: option.splits sum.splits)

lemma allow_returns: "1 \<le> rps \<Longrightarrow> \<exists>res. snd (allow ll now key rps burst) = Inr res"
  by (auto simp: allow_def Let_def go_div_def split: option.splits sum.splits)

lemma allow_zero_rate_panics:
  "snd (allow \<lparr>requests = [''k'' \<mapsto> \<lparr>tokens = 0, lastCheck = 0\<rparr>]\<rparr> 0 ''k'' 0 1)
     = Inl DivideByZero"
  by (simp add: allow_def min_f_def Seconds_def Sub_def go_div_def)

text \<open>
  C9. \<open>allow\<close> returns a result whenever \<open>rps \<ge> 1\<close>. It panics with a division by zero
  exactly when \<open>rps = 0\<close> and the denial branch is reached, that is, when the key has a
  bucket whose refilled count is below one. So among the rates from 0 upwards, \<open>allow\<close>
  returns in every state exactly for the rates from 1 upwards.
\<close>

theorem allow_panics_iff:
  "(1 \<le> rps \<longrightarrow> (\<exists>res. snd (allow ll now key rps burst) = Inr res))
   \<and> (snd (allow ll now key rps burst) = Inl DivideByZero \<longleftrightarrow>
        rps = 0 \<and> (\<exists>b. requests ll key = Some b
           \<and> \<not> 1 \<le> min_f (real_of_int burst)
                       (tokens b + Seconds (Sub now (lastCheck b)) * real_of_int rps)))
   \<and> (0 \<le> rps \<longrightarrow>
        ((\<forall>ll' now' key' burst'. \<exists>res. snd (allow ll' now' key' rps burst') = Inr res)
           \<longleftrightarrow> 1 \<le> rps))"
proof (intro conjI impI)
  assume "1 \<le> rps"
  then show "\<exists>res. snd (allow ll now key rps burst) = Inr res" by (rule allow_returns)
next
  show "snd (allow ll now key rps burst) = Inl DivideByZero \<longleftrightarrow>
        rps = 0 \<and> (\<exists>b. requests ll key = Some b
           \<and> \<not> 1 \<le> min_f (real_of_int burst)
                       (tokens b + Seconds (Sub now (lastCheck b)) * real_of_int rps))"
    by (rule allow_panics_char)
next
  assume nn: "0 \<le> rps"
  show "(\<forall>ll' now' key' burst'. \<exists>res. snd (allow ll' now' key' rps burst') = Inr res)
           \<longleftrightarrow> 1 \<le> rps"
  proof
    assume t: "\<forall>ll' now' key' burst'. \<exists>res. snd (allow ll' now' key' rps burst') = Inr res"
    show "1 \<le> rps"
    proof (rule ccontr)
      assume "\<not> 1 \<le> rps"
      then have z: "rps = 0" using nn by simp
      from t obtain res where
        "snd (allow \<lparr>requests = [''k'' \<mapsto> \<lparr>tokens = 0, lastCheck = 0\<rparr>]\<rparr> 0 ''k'' rps 1) = Inr res"
        by blast
      then show False using allow_zero_rate_panics z by simp
    qed
  next
    assume "1 \<le> rps"
    then show "\<forall>ll' now' key' burst'. \<exists>res. snd (allow ll' now' key' rps burst') = Inr res"
      using allow_returns by blast
  qed
qed

theorem allow_panics_iff_witness:
  "(\<exists>res. snd (allow (fst (allow empty_limiter 0 ''k'' 1 1)) 5 ''k'' 1 1) = Inr res)
   \<and> snd (allow (fst (allow empty_limiter 0 ''k'' 0 1)) 5 ''k'' 0 1) = Inl DivideByZero
   \<and> \<not> (\<forall>ll' now' key' burst'. \<exists>res. snd (allow ll' now' key' 0 burst') = Inr res)"
proof -
  have "requests (fst (allow empty_limiter 0 ''k'' 0 1)) ''k'' = Some \<lparr>tokens = 0, lastCheck = 0\<rparr>"
    by (simp add: allow_def empty_limiter_def)
  then show ?thesis
    using allow_panics_iff [of 1 "fst (allow empty_limiter 0 ''k'' 1 1)" 5 "''k''" 1]
      allow_panics_iff [of 0 "fst (allow empty_limiter 0 ''k'' 0 1)" 5 "''k''" 1]
    by (simp add: min_f_def)
qed

section \<open>Properties of the reverse proxy\<close>

lemma letters_length: "length upper_letters = length lower_letters"
  by (simp add: upper_letters_def lower_letters_def)

lemma to_lower_id: "c \<notin> set upper_letters \<Longrightarrow> to_lower c = c"
proof -
  assume "c \<notin> set upper_letters"
  then have "map_of (zip upper_letters lower_letters) c = None"
    using map_of_zip_is_None [OF letters_length, of c] by simp
  then show ?thesis by (simp add: to_lower_def)
qed

lemma to_upper_id: "c \<notin> set lower_letters \<Longrightarrow> to_upper c = c"
proof -
  assume "c \<notin> set lower_letters"
  then have "map_of (zip lower_letters upper_letters) c = None"
    using map_of_zip_is_None [OF letters_length [symmetric], of c] by simp
  then show ?thesis by (simp add: to_upper_def)
qed

lemma upper_table:
  "list_all (\<lambda>c. to_upper (to_lower c) = c \<and> c \<notin> set lower_letters
                  \<and> validHeaderFieldByte c \<and> validHeaderFieldByte (to_lower c)) upper_letters"
  by code_simp

lemma upper_cases:
  "c \<in> set upper_letters \<Longrightarrow>
     to_upper (to_lower c) = c \<and> c \<notin> set lower_letters
     \<and> validHeaderFieldByte c \<and> validHeaderFieldByte (to_lower c)"
  using upper_table by (simp add: list_all_iff)


lemma canon_byte_fold:
  "canon_byte u c = (if u then to_upper (to_lower c) else to_lower c)"
proof (cases "c \<in> set upper_letters")
  case True
  then show ?thesis using upper_cases [OF True] by (simp add: canon_byte_def)
next
  case False
  then show ?thesis by (simp add: canon_byte_def to_lower_id to_upper_id)
qed

lemma valid_fold: "validHeaderFieldByte (to_lower c) = validHeaderFieldByte c"
proof (cases "c \<in> set upper_letters")
  case True
  then show ?thesis using upper_cases [OF True] by simp
next
  case False
  then show ?thesis by (simp add: to_lower_id)
qed

lemma canon_bytes_fold:
  "map to_lower k = map to_lower n \<Longrightarrow> canon_bytes u k = canon_bytes u n"
proof (induction k arbitrary: n u)
  case Nil
  then show ?case by simp
next
  case (Cons c cs)
  then obtain d ds where n: "n = d # ds" by (cases n) auto
  with Cons.prems have cd: "to_lower c = to_lower d" and r: "map to_lower cs = map to_lower ds"
    by auto
  have "canon_byte u c = canon_byte u d" using cd by (simp add: canon_byte_fold)
  then show ?case using Cons.IH [OF r] n by simp
qed

lemma valid_all_fold:
  "map to_lower k = map to_lower n \<Longrightarrow>
     list_all validHeaderFieldByte k = list_all validHeaderFieldByte n"
proof (induction k arbitrary: n)
  case Nil
  then show ?case by simp
next
  case (Cons c cs)
  then obtain d ds where n: "n = d # ds" by (cases n) auto
  with Cons.prems have cd: "to_lower c = to_lower d" and r: "map to_lower cs = map to_lower ds"
    by auto
  have "validHeaderFieldByte c = validHeaderFieldByte d"
    using cd valid_fold [of c] valid_fold [of d] by simp
  then show ?case using Cons.IH [OF r] n by simp
qed

lemma CanonicalHeaderKey_fold:
  "EqualFold k n \<Longrightarrow> list_all validHeaderFieldByte n \<Longrightarrow>
     CanonicalHeaderKey k = CanonicalHeaderKey n"
  using valid_all_fold [of k n] canon_bytes_fold [of k n True]
  by (simp add: CanonicalHeaderKey_def EqualFold_def)

lemma names_table:
  "list_all (\<lambda>n. list_all validHeaderFieldByte n \<and> isHopByHopHeader n) hop_by_hop_names"
  by code_simp

lemma hop_name_is_filtered: "is_hop_by_hop_name k \<Longrightarrow> isHopByHopHeader k"
proof -
  assume "is_hop_by_hop_name k"
  then obtain n where n: "n \<in> set hop_by_hop_names" "EqualFold k n"
    by (auto simp: is_hop_by_hop_name_def list_ex_iff)
  have v: "list_all validHeaderFieldByte n" and h: "isHopByHopHeader n"
    using n(1) names_table by (auto simp: list_all_iff)
  show ?thesis
    using CanonicalHeaderKey_fold [OF n(2) v] h by (simp add: isHopByHopHeader_def)
qed

lemma forwarding_names_table:
  "list_all (\<lambda>n. \<not> isHopByHopHeader n)
     [''X-Forwarded-For'', ''X-Forwarded-Host'', ''X-Forwarded-Proto'', ''X-Real-IP'',
      ''X-Request-ID'', ''Content-Type'']"
  by code_simp

lemma list_all_header_set:
  "list_all P hs \<Longrightarrow> P (k, v) \<Longrightarrow> list_all P (header_set k v hs)"
  by (simp add: header_set_def list_all_iff)

lemma copy_request_headers_all:
  "list_all P acc \<Longrightarrow> (\<And>k v. \<not> isHopByHopHeader k \<Longrightarrow> P (k, v)) \<Longrightarrow>
     list_all P (copy_request_headers hs acc)"
proof (induction hs arbitrary: acc)
  case Nil
  then show ?case by (simp add: copy_request_headers_def)
next
  case (Cons x xs)
  obtain k v where x: "x = (k, v)" by (cases x)
  have step: "copy_request_headers (x # xs) acc
      = copy_request_headers xs (if isHopByHopHeader k then acc else header_set k v acc)"
    by (simp add: copy_request_headers_def x)
  have "list_all P (if isHopByHopHeader k then acc else header_set k v acc)"
    using Cons.prems by (simp add: list_all_header_set)
  then show ?case unfolding step using Cons.IH Cons.prems(2) by blast
qed

lemma copy_response_headers_all:
  "list_all P (resp_headers c) \<Longrightarrow> (\<And>k v. \<not> isHopByHopHeader k \<Longrightarrow> P (k, v)) \<Longrightarrow>
     list_all P (resp_headers (copy_response_headers hs c))"
proof (induction hs arbitrary: c)
  case Nil
  then show ?case by (simp add: copy_response_headers_def)
next
  case (Cons x xs)
  obtain k v where x: "x = (k, v)" by (cases x)
  have step: "copy_response_headers (x # xs) c
      = copy_response_headers xs (if isHopByHopHeader k then c else Set_hdr k v c)"
    by (simp add: copy_response_headers_def x)
  have "list_all P (resp_headers (if isHopByHopHeader k then c else Set_hdr k v c))"
    using Cons.prems by (simp add: list_all_header_set Set_hdr_def)
  then show ?case unfolding step using Cons.IH Cons.prems(2) by blast
qed

lemma upstream_request_all:
  assumes "\<And>k v. \<not> isHopByHopHeader k \<Longrightarrow> P (k, v)"
  shows "list_all P (rq_headers (upstream_request svc c sp))"
proof -
  have f: "\<not> isHopByHopHeader ''X-Forwarded-For''" "\<not> isHopByHopHeader ''X-Forwarded-Host''"
    "\<not> isHopByHopHeader ''X-Forwarded-Proto''" "\<not> isHopByHopHeader ''X-Real-IP''"
    "\<not> isHopByHopHeader ''X-Request-ID''"
    using forwarding_names_table by simp_all
  have "list_all P (copy_request_headers (req_headers c) [])"
    using assms by (intro copy_request_headers_all) simp_all
  then show ?thesis
    unfolding upstream_request_def Let_def
    by (simp add: list_all_header_set assms f)
qed

lemma forward_response_all:
  assumes "list_all P (resp_headers c)"
    and "\<And>k v. \<not> isHopByHopHeader k \<Longrightarrow> P (k, v)"
  shows "list_all P (resp_headers (snd (Forward p do c serviceName stripPrefix)))"
proof -
  have ct: "\<And>v. P (''Content-Type'', v)"
    using forwarding_names_table assms(2) by simp
  have json: "\<And>m s. list_all P (resp_headers (JSON m (Status s c)))"
    using assms(1) by (simp add: JSON_def Set_hdr_def Status_def list_all_header_set ct)
  have copy: "\<And>hs. list_all P (resp_headers (copy_response_headers hs c))"
    using assms by (intro copy_response_headers_all) simp_all
  have send: "\<And>b s x. resp_headers (Send b (Status s x)) = resp_headers x"
    by (simp add: Send_def Status_def)
  show ?thesis
    by (simp add: Forward_def Let_def json copy send split: option.splits sum.splits)
qed

text \<open>
  C1. No hop-by-hop header crosses the proxy. Whatever the case of its letters, a header
  named Connection, Keep-Alive, Proxy-Authenticate, Proxy-Authorization, TE, Trailers,
  Transfer-Encoding or Upgrade is absent from the request that \<open>Forward\<close> hands to the
  transport, and a header of that name on the client response after \<open>Forward\<close> was
  already there before: none is taken over from the upstream response.
\<close>

theorem forward_hop_by_hop:
  "(\<forall>req. fst (Forward p do c serviceName stripPrefix) = Some req \<longrightarrow>
       (\<forall>(k, v) \<in> set (rq_headers req). \<not> is_hop_by_hop_name k))
   \<and> (\<forall>(k, v) \<in> set (resp_headers (snd (Forward p do c serviceName stripPrefix))).
         is_hop_by_hop_name k \<longrightarrow> (k, v) \<in> set (resp_headers c))"
proof -
  have up: "list_all (\<lambda>(k, v). \<not> is_hop_by_hop_name k) (rq_headers (upstream_request svc c stripPrefix))"
    for svc
    using hop_name_is_filtered by (intro upstream_request_all) auto
  have req: "\<exists>svc. req = upstream_request svc c stripPrefix"
    if "fst (Forward p do c serviceName stripPrefix) = Some req" for req
    using that by (auto simp: Forward_def Let_def split: option.splits if_splits sum.splits)
  have down: "list_all (\<lambda>(k, v). is_hop_by_hop_name k \<longrightarrow> (k, v) \<in> set (resp_headers c))
      (resp_headers (snd (Forward p do c serviceName stripPrefix)))"
    using hop_name_is_filtered by (intro forward_response_all) (auto simp: list_all_iff)
  show ?thesis
    using up req down unfolding list_all_iff by blast
qed

lemma upstream_headers_ctx1:
  "map fst (rq_headers (upstream_request svc ctx1 sp))
       = [''Accept'', ''X-Forwarded-For'', ''X-Forwarded-Host'', ''X-Forwarded-Proto'',
          ''X-Real-IP'', ''X-Request-ID'']"
  by code_simp

lemma forward_request_ctx1:
  "fst (Forward proxy0 do_ok ctx1 ''auth'' [])
     = Some (upstream_request \<lparr>Name = ''auth'', URL = ''http://localhost:5000'',
                      HealthPath = ''/api/health'', Healthy = True\<rparr> ctx1 [])"
  by (simp add: Forward_def proxy0_def GetService_def do_ok_def)

lemma forward_response_ctx1:
  "map fst (resp_headers (snd (Forward proxy0 do_ok ctx1 ''auth'' []))) = [''Content-Type'']"
  by code_simp

theorem forward_hop_by_hop_witness:
  "map fst (req_headers ctx1) = [''Connection'', ''te'', ''Accept'']
   \<and> (\<exists>req. fst (Forward proxy0 do_ok ctx1 ''auth'' []) = Some req
         \<and> map fst (rq_headers req)
             = [''Accept'', ''X-Forwarded-For'', ''X-Forwarded-Host'', ''X-Forwarded-Proto'',
                ''X-Real-IP'', ''X-Request-ID'']
         \<and> list_all (\<lambda>kv. \<not> is_hop_by_hop_name (fst kv)) (rq_headers req))
   \<and> map fst (resp_headers (snd (Forward proxy0 do_ok ctx1 ''auth'' []))) = [''Content-Type'']
   \<and> list_all (\<lambda>kv. \<not> is_hop_by_hop_name (fst kv))
        (resp_headers (snd (Forward proxy0 do_ok ctx1 ''auth'' [])))"
proof -
  have e: "set (resp_headers ctx1) = {}" by (simp add: ctx1_def)
  have i: "map fst (req_headers ctx1) = [''Connection'', ''te'', ''Accept'']"
    by (simp add: ctx1_def)
  show ?thesis
    using forward_hop_by_hop [of proxy0 do_ok ctx1 "''auth''" "[]"] upstream_headers_ctx1 forward_request_ctx1 forward_response_ctx1 e i
    by (auto simp: list_all_iff)
qed

lemma TrimPrefix_Nil: "TrimPrefix s [] = s"
  by (simp add: TrimPrefix_def HasPrefix_def)

lemma target_url_forwarded:
  assumes "req_path c \<noteq> []"
  shows "target_url svc c (if StripPrefix route then Path route else [])
         = URL svc @ forwarded_path route (req_path c)
             @ (if req_query c \<noteq> [] then ''?'' @ req_query c else [])"
proof (cases "StripPrefix route \<and> Path route \<noteq> []")
  case True
  then show ?thesis
    by (simp add: target_url_def forwarded_path_def Let_def)
next
  case False
  then have "forwarded_path route (req_path c) = req_path c"
    using assms by (auto simp: forwarded_path_def TrimPrefix_Nil)
  then show ?thesis using False
    by (auto simp: target_url_def Let_def)
qed

text \<open>
  C6. When the route's service is known and healthy, the request handed to the transport
  has the client's method and the target URL: the service's base URL, then the request
  path with the route's prefix removed when \<open>strip_prefix\<close> is set (and \<open>/\<close> for an
  empty result), then \<open>?\<close> and the query string exactly when the query string is not
  empty. A request path is never empty.
\<close>

theorem forward_target_url:
  assumes "services p (Service route) = Some svc" and "Healthy svc" and "req_path c \<noteq> []"
  shows "\<exists>req. fst (createProxyHandler p do route c) = Some req
           \<and> rq_method req = req_method c
           \<and> uri req = URL svc @ forwarded_path route (req_path c)
                          @ (if req_query c \<noteq> [] then ''?'' @ req_query c else [])"
proof -
  let ?c = "c\<lparr>loc_route := Some route, loc_isPublic := Some (Public route),
               loc_service := Some (Service route)\<rparr>"
  let ?sp = "if StripPrefix route then Path route else []"
  have f: "fst (createProxyHandler p do route c) = Some (upstream_request svc ?c ?sp)"
    using assms(1,2)
    by (simp add: createProxyHandler_def Forward_def GetService_def Let_def split: sum.splits)
  have u: "uri (upstream_request svc ?c ?sp) = target_url svc ?c ?sp"
    and m: "rq_method (upstream_request svc ?c ?sp) = req_method c"
    by (simp_all add: upstream_request_def Let_def)
  have p: "req_path ?c \<noteq> []" using assms(3) by simp
  show ?thesis
    using f u m target_url_forwarded [OF p, of svc route] by simp
qed

text \<open>
  The witness is the request of the specification: \<^verbatim>\<open>GET /api/v1/auth/me?x=1\<close> on the
  strip-prefix route \<^verbatim>\<open>/api/v1/auth\<close> reaches the upstream as \<^verbatim>\<open>GET /me?x=1\<close>.
\<close>

theorem forward_target_url_witness:
  "\<exists>req. fst (createProxyHandler proxy0 do_ok route_auth ctx1) = Some req
      \<and> rq_method req = ''GET'' \<and> uri req = ''http://localhost:5000/me?x=1''"
proof -
  have h1: "services proxy0 (Service route_auth)
      = Some \<lparr>Name = ''auth'', URL = ''http://localhost:5000'',
              HealthPath = ''/api/health'', Healthy = True\<rparr>"
    by (simp add: proxy0_def route_auth_def)
  have h2: "Healthy \<lparr>Name = ''auth'', URL = ''http://localhost:5000'',
              HealthPath = ''/api/health'', Healthy = True\<rparr>" by simp
  have h3: "req_path ctx1 \<noteq> []" by (simp add: ctx1_def)
  have p: "forwarded_path route_auth (req_path ctx1) = ''/me''"
    by (simp add: forwarded_path_def route_auth_def ctx1_def TrimPrefix_def HasPrefix_def)
  show ?thesis
    using forward_target_url [OF h1 h2 h3, of do_ok] p by (simp add: ctx1_def)
qed

text \<open>
  C7. \<open>Forward\<close> answers 502 when the service is not in the registry, 503 when it is
  marked unhealthy, and 502 with a JSON body of the fields \<open>error\<close> and \<open>details\<close>
  when the transport call fails; otherwise the response has the upstream's status code
  and body.
\<close>

theorem forward_status:
  "(services p serviceName = None \<longrightarrow>
      resp_status (snd (Forward p do c serviceName stripPrefix)) = 502)
   \<and> (\<forall>svc. services p serviceName = Some svc \<and> \<not> Healthy svc \<longrightarrow>
      resp_status (snd (Forward p do c serviceName stripPrefix)) = 503)
   \<and> (\<forall>svc err. services p serviceName = Some svc \<and> Healthy svc
         \<and> do (upstream_request svc c stripPrefix) = Inl err \<longrightarrow>
      resp_status (snd (Forward p do c serviceName stripPrefix)) = 502
      \<and> resp_body (snd (Forward p do c serviceName stripPrefix))
          = Json [(''error'', JStr ''upstream request failed''), (''details'', JStr err)])
   \<and> (\<forall>svc resp. services p serviceName = Some svc \<and> Healthy svc
         \<and> do (upstream_request svc c stripPrefix) = Inr resp \<longrightarrow>
      resp_status (snd (Forward p do c serviceName stripPrefix)) = StatusCode resp
      \<and> resp_body (snd (Forward p do c serviceName stripPrefix)) = Raw (rs_body resp))"
  by (simp add: Forward_def GetService_def Let_def JSON_def Status_def Send_def Set_hdr_def)

theorem forward_status_witness:
  "resp_status (snd (Forward proxy0 do_ok ctx1 ''billing'' [])) = 502
   \<and> resp_status (snd (Forward proxy0 do_ok ctx1 ''notifier'' [])) = 503
   \<and> resp_status (snd (Forward proxy0 do_fail ctx1 ''auth'' [])) = 502
   \<and> resp_body (snd (Forward proxy0 do_fail ctx1 ''auth'' []))
        = Json [(''error'', JStr ''upstream request failed''),
                (''details'', JStr ''connection refused'')]
   \<and> resp_status (snd (Forward proxy0 do_ok ctx1 ''auth'' [])) = 404
   \<and> resp_body (snd (Forward proxy0 do_ok ctx1 ''auth'' [])) = Raw ''no such user''"
proof -
  have a: "services proxy0 ''billing'' = None"
    and n: "services proxy0 ''notifier'' = Some \<lparr>Name = ''notifier'', URL = ''http://localhost:5001'',
                          HealthPath = ''/api/health'', Healthy = False\<rparr>"
    and s: "services proxy0 ''auth'' = Some \<lparr>Name = ''auth'', URL = ''http://localhost:5000'',
              HealthPath = ''/api/health'', Healthy = True\<rparr>"
    by (simp_all add: proxy0_def)
  show ?thesis
    using forward_status [of proxy0 "''billing''" do_ok ctx1 "[]"]
      forward_status [of proxy0 "''notifier''" do_ok ctx1 "[]"]
      forward_status [of proxy0 "''auth''" do_fail ctx1 "[]"]
      forward_status [of proxy0 "''auth''" do_ok ctx1 "[]"]
      a n s
    by (simp add: do_ok_def do_fail_def)
qed

section \<open>Properties of the circuit breaker\<close>

lemma counts_after_snoc: "counts_after (obs @ [x]) = record_obs (counts_after obs) x"
  by (simp add: counts_after_def)

lemma failures_le: "failures obs \<le> length obs"
  by (simp add: failures_def)

lemma failures_snoc: "failures (obs @ [x]) = failures obs + (if x then 0 else 1)"
  by (simp add: failures_def)

lemma unat_succ_32:
  fixes w :: "32 word"
  assumes "unat w = n" and "Suc n < 2 ^ 32"
  shows "unat (w + 1) = Suc n"
proof -
  have "unat w + unat (1 :: 32 word) < 2 ^ LENGTH(32)" using assms by simp
  then have "unat (w + 1) = unat w + unat (1 :: 32 word)"
    by (simp only: unat_add_lem)
  then show ?thesis using assms by simp
qed

lemma counts_after_values:
  "length obs < 2 ^ 32 \<Longrightarrow>
     unat (Requests (counts_after obs)) = length obs
     \<and> unat (TotalFailures (counts_after obs)) = failures obs"
proof (induction obs rule: rev_induct)
  case Nil
  then show ?case by (simp add: counts_after_def no_counts_def failures_def)
next
  case (snoc x xs)
  then have l: "Suc (length xs) < 2 ^ 32" by simp
  then have ih: "unat (Requests (counts_after xs)) = length xs"
    "unat (TotalFailures (counts_after xs)) = failures xs"
    using snoc.IH by simp_all
  have f: "Suc (failures xs) < 2 ^ 32"
    using l failures_le [of xs] by linarith
  have r: "unat (Requests (counts_after xs) + 1) = Suc (length xs)"
    by (rule unat_succ_32 [OF ih(1) l])
  have t: "unat (TotalFailures (counts_after xs) + 1) = Suc (failures xs)"
    by (rule unat_succ_32 [OF ih(2) f])
  show ?case
    using r t ih
    by (simp add: counts_after_snoc record_obs_def onRequest_def onSuccess_def onFailure_def
        failures_snoc)
qed

lemma ReadyToTrip_counts_after:
  assumes "obs \<noteq> []" and "length obs < 2 ^ 32"
  shows "ReadyToTrip cfg (counts_after obs)
           \<longleftrightarrow> trip_condition (unat (FailureThreshold cfg)) obs"
proof -
  have v: "unat (Requests (counts_after obs)) = length obs"
    "unat (TotalFailures (counts_after obs)) = failures obs"
    using counts_after_values [OF assms(2)] by simp_all
  have nz: "Requests (counts_after obs) \<noteq> 0"
    using v(1) assms(1) by (metis length_0_conv unat_0)
  show ?thesis
    using v nz
    by (simp add: ReadyToTrip_def Let_def f64_div_def trip_condition_def word_le_nat_alt)
qed

lemma observe_closed:
  "observe cfg \<lparr>state = StateClosed, counts = n\<rparr> ok
     = (if \<not> ok \<and> ReadyToTrip cfg (record_obs n ok)
        then \<lparr>state = StateOpen, counts = no_counts\<rparr>
        else \<lparr>state = StateClosed, counts = record_obs n ok\<rparr>)"
  by (simp add: observe_def beforeRequest_def afterRequest_def record_obs_def setState_def Let_def)

lemma observe_all_snoc: "observe_all cfg b (obs @ [x]) = observe cfg (observe_all cfg b obs) x"
  by (simp add: observe_all_def)

lemma stays_closed:
  assumes "length obs < 2 ^ 32"
    and "\<forall>n. 0 < n \<and> n \<le> length obs \<longrightarrow> \<not> trip_condition (unat (FailureThreshold cfg)) (take n obs)"
  shows "observe_all cfg new_breaker obs = \<lparr>state = StateClosed, counts = counts_after obs\<rparr>"
  using assms
proof (induction obs rule: rev_induct)
  case Nil
  then show ?case by (simp add: observe_all_def new_breaker_def counts_after_def)
next
  case (snoc x xs)
  have l: "length xs < 2 ^ 32" using snoc.prems(1) by simp
  have p: "\<forall>n. 0 < n \<and> n \<le> length xs
             \<longrightarrow> \<not> trip_condition (unat (FailureThreshold cfg)) (take n xs)"
  proof (intro allI impI)
    fix n assume n: "0 < n \<and> n \<le> length xs"
    then show "\<not> trip_condition (unat (FailureThreshold cfg)) (take n xs)"
      using snoc.prems(2) [rule_format, of n] by simp
  qed
  have ih: "observe_all cfg new_breaker xs = \<lparr>state = StateClosed, counts = counts_after xs\<rparr>"
    using snoc.IH [OF l p] .
  have "\<not> trip_condition (unat (FailureThreshold cfg)) (xs @ [x])"
    using snoc.prems(2) [rule_format, of "length (xs @ [x])"] by simp
  then have nt: "\<not> ReadyToTrip cfg (counts_after (xs @ [x]))"
    using ReadyToTrip_counts_after [of "xs @ [x]" cfg] snoc.prems(1) by simp
  show ?case
    using nt by (simp add: observe_all_snoc ih observe_closed counts_after_snoc)
qed

text \<open>
  C2. For a non-empty sequence of recorded successes and failures (shorter than \<open>2^32\<close>,
  the range of the counters) seen by a breaker with failure threshold \<open>N\<close>, the trip
  function holds of the counters exactly when the number of requests is at least \<open>N\<close>
  and failures / requests is at least one half. The breaker is still closed after a
  sequence none of whose observations meets that condition, and it is open after a
  sequence that ends in a failure and meets the condition for the first time at its end.
\<close>

theorem ready_to_trip_iff:
  assumes "obs \<noteq> []" and "length obs < 2 ^ 32"
  shows "(ReadyToTrip cfg (counts_after obs)
            \<longleftrightarrow> trip_condition (unat (FailureThreshold cfg)) obs)
    \<and> ((\<forall>n. 0 < n \<and> n \<le> length obs
            \<longrightarrow> \<not> trip_condition (unat (FailureThreshold cfg)) (take n obs))
         \<longrightarrow> state (observe_all cfg new_breaker obs) = StateClosed)
    \<and> ((\<forall>n. 0 < n \<and> n < length obs
            \<longrightarrow> \<not> trip_condition (unat (FailureThreshold cfg)) (take n obs))
         \<and> trip_condition (unat (FailureThreshold cfg)) obs \<and> \<not> last obs
         \<longrightarrow> state (observe_all cfg new_breaker obs) = StateOpen)"
proof (intro conjI impI)
  show "ReadyToTrip cfg (counts_after obs)
            \<longleftrightarrow> trip_condition (unat (FailureThreshold cfg)) obs"
    by (rule ReadyToTrip_counts_after [OF assms])
next
  assume "\<forall>n. 0 < n \<and> n \<le> length obs
            \<longrightarrow> \<not> trip_condition (unat (FailureThreshold cfg)) (take n obs)"
  then show "state (observe_all cfg new_breaker obs) = StateClosed"
    using stays_closed [OF assms(2)] by simp
next
  assume a: "(\<forall>n. 0 < n \<and> n < length obs
            \<longrightarrow> \<not> trip_condition (unat (FailureThreshold cfg)) (take n obs))
         \<and> trip_condition (unat (FailureThreshold cfg)) obs \<and> \<not> last obs"
  obtain xs x where o: "obs = xs @ [x]" using assms(1) by (metis rev_exhaust)
  have x: "\<not> x" using a o by simp
  have l: "length xs < 2 ^ 32" using assms(2) o by simp
  have p: "\<forall>n. 0 < n \<and> n \<le> length xs
             \<longrightarrow> \<not> trip_condition (unat (FailureThreshold cfg)) (take n xs)"
  proof (intro allI impI)
    fix n assume n: "0 < n \<and> n \<le> length xs"
    then show "\<not> trip_condition (unat (FailureThreshold cfg)) (take n xs)"
      using a [THEN conjunct1, rule_format, of n] o by simp
  qed
  have c: "observe_all cfg new_breaker xs = \<lparr>state = StateClosed, counts = counts_after xs\<rparr>"
    by (rule stays_closed [OF l p])
  have "ReadyToTrip cfg (counts_after obs)"
    using ReadyToTrip_counts_after [OF assms] a by simp
  then show "state (observe_all cfg new_breaker obs) = StateOpen"
    using x by (simp add: o observe_all_snoc c observe_closed counts_after_snoc)
qed

theorem ready_to_trip_iff_witness:
  "ReadyToTrip cfg5 (counts_after [False, False, False, False, False])
   \<and> \<not> ReadyToTrip cfg5 (counts_after [False, False, False, False])
   \<and> state (observe_all cfg5 new_breaker [False, False, False, False]) = StateClosed
   \<and> state (observe_all cfg5 new_breaker [False, False, False, False, False]) = StateOpen"
proof -
  have t: "unat (FailureThreshold cfg5) = 5" by (simp add: cfg5_def)
  have c5: "trip_condition 5 [False, False, False, False, False]"
    by (simp add: trip_condition_def failures_def)
  have n4: "\<not> trip_condition 5 (take n [False, False, False, False])" for n
    by (simp add: trip_condition_def)
  have n5: "n < 5 \<Longrightarrow> \<not> trip_condition 5 (take n [False, False, False, False, False])" for n
    by (simp add: trip_condition_def)
  show ?thesis
    using ready_to_trip_iff [of "[False, False, False, False, False]" cfg5]
      ready_to_trip_iff [of "[False, False, False, False]" cfg5]
      c5 n4 [of 4] n4 n5
    by (simp add: t)
qed

lemma Execute_open:
  "state cb = StateOpen \<Longrightarrow> Execute cfg cb next c = (cb, c, Some ErrOpenState)"
  by (simp add: Execute_def beforeRequest_def)

lemma Execute_half_full:
  "state cb = StateHalfOpen \<Longrightarrow> MaxRequests cfg \<le> Requests (counts cb) \<Longrightarrow>
     Execute cfg cb next c = (cb, c, Some ErrTooManyRequests)"
  by (simp add: Execute_def beforeRequest_def)

lemma middleware_path:
  "fst (snd (CircuitBreakerManager_Middleware m next c)) = ViaBreaker \<longleftrightarrow>
     cb_Enabled (cm_cfg m) \<and> service_is_upstream c
     \<and> (loc_route c = None \<or> route_has_breaker c)"
  by (auto simp: CircuitBreakerManager_Middleware_def service_is_upstream_def
      route_has_breaker_def Let_def
      split: option.splits prod.splits exec_error.splits)

lemma middleware_wrapped:
  assumes "cb_Enabled (cm_cfg m)" and "loc_service c = Some s" and "s \<noteq> []" and "s \<noteq> ''gateway''"
    and "loc_route c = None \<or> route_has_breaker c"
  shows "snd (snd (CircuitBreakerManager_Middleware m next c))
    = (case Execute (cm_cfg m) (snd (GetBreaker m s)) next c of
         (cb1, c1, Some ErrOpenState) \<Rightarrow> JSON (service_unavailable_body s) (Status 503 c1)
       | (cb1, c1, Some ErrTooManyRequests) \<Rightarrow> JSON (too_many_requests_body s) (Status 503 c1)
       | (cb1, c1, _) \<Rightarrow> c1)"
  using assms
  by (auto simp: CircuitBreakerManager_Middleware_def route_has_breaker_def Let_def
      split: option.splits prod.splits exec_error.splits)

text \<open>
  C5, as amended. The middleware hands the call to the breaker exactly when breaking is
  enabled, the context names a service that is neither empty nor \<open>gateway\<close>, and the
  context holds either no route at all or a route with \<open>circuit_breaker = true\<close>. When
  the breaker is open the answer is 503 with error kind \<open>service_unavailable\<close>; when it
  is half-open and has admitted \<open>MaxRequests\<close> requests the answer is 503 with error
  kind \<open>too_many_requests\<close>.
\<close>

theorem circuit_middleware:
  "(fst (snd (CircuitBreakerManager_Middleware m next c)) = ViaBreaker \<longleftrightarrow>
      cb_Enabled (cm_cfg m) \<and> service_is_upstream c
      \<and> (loc_route c = None \<or> route_has_breaker c))
   \<and> (cb_Enabled (cm_cfg m) \<and> loc_service c = Some s \<and> s \<noteq> [] \<and> s \<noteq> ''gateway''
        \<and> (loc_route c = None \<or> route_has_breaker c) \<longrightarrow>
        (state (snd (GetBreaker m s)) = StateOpen \<longrightarrow>
           resp_status (snd (snd (CircuitBreakerManager_Middleware m next c))) = 503
           \<and> resp_body (snd (snd (CircuitBreakerManager_Middleware m next c)))
               = Json (service_unavailable_body s))
        \<and> (state (snd (GetBreaker m s)) = StateHalfOpen
             \<and> MaxRequests (cm_cfg m) \<le> Requests (counts (snd (GetBreaker m s))) \<longrightarrow>
           resp_status (snd (snd (CircuitBreakerManager_Middleware m next c))) = 503
           \<and> resp_body (snd (snd (CircuitBreakerManager_Middleware m next c)))
               = Json (too_many_requests_body s)))"
proof (intro conjI impI)
  show "fst (snd (CircuitBreakerManager_Middleware m next c)) = ViaBreaker \<longleftrightarrow>
      cb_Enabled (cm_cfg m) \<and> service_is_upstream c
      \<and> (loc_route c = None \<or> route_has_breaker c)"
    by (rule middleware_path)
next
  assume a: "cb_Enabled (cm_cfg m) \<and> loc_service c = Some s \<and> s \<noteq> [] \<and> s \<noteq> ''gateway''
        \<and> (loc_route c = None \<or> route_has_breaker c)"
  assume o: "state (snd (GetBreaker m s)) = StateOpen"
  have w: "snd (snd (CircuitBreakerManager_Middleware m next c))
      = JSON (service_unavailable_body s) (Status 503 c)"
    using a by (simp add: middleware_wrapped Execute_open [OF o])
  show "resp_status (snd (snd (CircuitBreakerManager_Middleware m next c))) = 503"
    by (simp add: w JSON_def Status_def Set_hdr_def)
  show "resp_body (snd (snd (CircuitBreakerManager_Middleware m next c)))
               = Json (service_unavailable_body s)"
    by (simp add: w JSON_def Status_def Set_hdr_def)
next
  assume a: "cb_Enabled (cm_cfg m) \<and> loc_service c = Some s \<and> s \<noteq> [] \<and> s \<noteq> ''gateway''
        \<and> (loc_route c = None \<or> route_has_breaker c)"
  assume h: "state (snd (GetBreaker m s)) = StateHalfOpen
             \<and> MaxRequests (cm_cfg m) \<le> Requests (counts (snd (GetBreaker m s)))"
  have w: "snd (snd (CircuitBreakerManager_Middleware m next c))
      = JSON (too_many_requests_body s) (Status 503 c)"
    using a h by (simp add: middleware_wrapped Execute_half_full)
  show "resp_status (snd (snd (CircuitBreakerManager_Middleware m next c))) = 503"
    by (simp add: w JSON_def Status_def Set_hdr_def)
  show "resp_body (snd (snd (CircuitBreakerManager_Middleware m next c)))
               = Json (too_many_requests_body s)"
    by (simp add: w JSON_def Status_def Set_hdr_def)
qed

text \<open>
  The claim as first stated asks for a resolved route with \<open>circuit_breaker = true\<close>.
  A context that names the service \<open>auth\<close> and holds no route is wrapped all the same.
\<close>

theorem circuit_no_route_counterexample:
  "fst (snd (CircuitBreakerManager_Middleware mgr0 next_ok ctx_auth)) = ViaBreaker
   \<and> \<not> route_has_breaker ctx_auth"
  by (simp add: CircuitBreakerManager_Middleware_def mgr0_def cfg5_def ctx_auth_def ctx0_def
      route_has_breaker_def GetBreaker_def Execute_def beforeRequest_def new_breaker_def
      next_ok_def Status_def Send_def Let_def)

theorem circuit_middleware_witness:
  "fst (snd (CircuitBreakerManager_Middleware mgr_open next_ok
              (ctx_auth\<lparr>loc_route := Some route_auth\<rparr>))) = ViaBreaker
   \<and> resp_status (snd (snd (CircuitBreakerManager_Middleware mgr_open next_ok
              (ctx_auth\<lparr>loc_route := Some route_auth\<rparr>)))) = 503
   \<and> resp_body (snd (snd (CircuitBreakerManager_Middleware mgr_open next_ok
              (ctx_auth\<lparr>loc_route := Some route_auth\<rparr>))))
        = Json (service_unavailable_body ''auth'')
   \<and> resp_status (snd (snd (CircuitBreakerManager_Middleware mgr_half next_ok
              (ctx_auth\<lparr>loc_route := Some route_auth\<rparr>)))) = 503
   \<and> resp_body (snd (snd (CircuitBreakerManager_Middleware mgr_half next_ok
              (ctx_auth\<lparr>loc_route := Some route_auth\<rparr>))))
        = Json (too_many_requests_body ''auth'')
   \<and> fst (snd (CircuitBreakerManager_Middleware mgr_open next_ok
              (ctx_auth\<lparr>loc_route := Some (route_auth\<lparr>CircuitBreaker := False\<rparr>)\<rparr>))) = Direct"
proof -
  let ?c = "ctx_auth\<lparr>loc_route := Some route_auth\<rparr>"
  let ?d = "ctx_auth\<lparr>loc_route := Some (route_auth\<lparr>CircuitBreaker := False\<rparr>)\<rparr>"
  have c: "loc_service ?c = Some ''auth''" "route_has_breaker ?c" "service_is_upstream ?c"
    by (simp_all add: ctx_auth_def ctx0_def route_auth_def route_has_breaker_def
        service_is_upstream_def)
  have d: "\<not> route_has_breaker ?d" "loc_route ?d \<noteq> None"
    by (simp_all add: route_has_breaker_def route_auth_def)
  have o: "cb_Enabled (cm_cfg mgr_open)" "state (snd (GetBreaker mgr_open ''auth'')) = StateOpen"
    by (simp_all add: mgr_open_def cfg5_def GetBreaker_def)
  have h: "cb_Enabled (cm_cfg mgr_half)"
    "state (snd (GetBreaker mgr_half ''auth'')) = StateHalfOpen"
    "MaxRequests (cm_cfg mgr_half) \<le> Requests (counts (snd (GetBreaker mgr_half ''auth'')))"
    by (simp_all add: mgr_half_def cfg5_def GetBreaker_def no_counts_def)
  have p: "fst (snd (CircuitBreakerManager_Middleware mgr_open next_ok ?d)) \<noteq> ViaBreaker"
    using circuit_middleware [of mgr_open next_ok ?d "''auth''"] d by simp
  show ?thesis
    using circuit_middleware [of mgr_open next_ok ?c "''auth''"]
      circuit_middleware [of mgr_half next_ok ?c "''auth''"] c o h p
    by (simp add: cb_path.nchotomy) (metis cb_path.exhaust)
qed

section \<open>Properties of the authenticator\<close>

lemma is_unauthorized_Done: "is_unauthorized (Done (unauthorized msg c))"
  by (simp add: is_unauthorized_def unauthorized_def JSON_def Status_def Set_hdr_def)

lemma TrimPrefix_append: "TrimPrefix (p @ s) p = s"
  by (simp add: TrimPrefix_def HasPrefix_def)

lemma TrimPrefix_no_prefix: "\<not> HasPrefix s p \<Longrightarrow> TrimPrefix s p = s"
  by (simp add: TrimPrefix_def)

lemma append_neq_self: "p \<noteq> [] \<Longrightarrow> s \<noteq> p @ s"
proof
  assume "p \<noteq> []" and "s = p @ s"
  then have "length s = length p + length s" by (metis length_append)
  then show False using \<open>p \<noteq> []\<close> by simp
qed

lemma Auth_protected:
  assumes "protected acfg c"
  shows "Auth acfg decode verify now c =
     (let authHeader = Get_hdr (HeaderName acfg) c
      in if authHeader = [] then Done (unauthorized ''Missing authorization header'' c)
         else
           (let tokenString = TrimPrefix authHeader (TokenPrefix acfg)
            in if tokenString = authHeader
                 then Done (unauthorized ''Invalid authorization format'' c)
               else
                 (case validateToken decode verify now tokenString (JWTSecret acfg) of
                    Inl err \<Rightarrow> Done (unauthorized err c)
                  | Inr claims \<Rightarrow>
                      (let c = c\<lparr>loc_claims := Some (ContextKey acfg, claims),
                                loc_user_id := Some (UserID claims),
                                loc_tenant_id := Some (TenantID claims)\<rparr>;
                           c = Req_Set ''X-User-ID'' (UserID claims) c;
                           c = Req_Set ''X-Tenant-ID'' (TenantID claims) c;
                           c = Req_Set ''X-User-Email'' (Email claims) c;
                           c = (if 0 < length (Roles claims)
                                then Req_Set ''X-User-Roles'' (Join (Roles claims) '','') c
                                else c)
                       in Next c))))"
  using assms unfolding protected_def Auth_def Let_def by simp

lemma validateToken_expired:
  assumes "decode ts = Some tok" and "ExpiresAt (token_claims tok) = Some e" and "e \<le> now"
  shows "\<exists>err. validateToken decode verify now ts secret = Inl err"
  using assms
  by (simp add: validateToken_def ParseWithClaims_def split: sum.splits)

lemma validateToken_accepts:
  assumes "ParseWithClaims decode verify now ts (keyFunc secret) = Inr tok"
  shows "validateToken decode verify now ts secret = Inr (token_claims tok)"
proof -
  have "Valid tok \<and> (case ExpiresAt (token_claims tok) of Some e \<Rightarrow> \<not> e < now | None \<Rightarrow> True)"
    using assms
    by (auto simp: ParseWithClaims_def split: option.splits sum.splits if_splits)
  then show ?thesis using assms
    by (auto simp: validateToken_def split: option.splits)
qed

lemma loc_Req_Set [simp]:
  "loc_claims (Req_Set k v c) = loc_claims c"
  "loc_user_id (Req_Set k v c) = loc_user_id c"
  "loc_tenant_id (Req_Set k v c) = loc_tenant_id c"
  by (simp_all add: Req_Set_def)

text \<open>
  C8. With the header name and token prefix of \<open>DefaultAuthConfig\<close>, a protected
  request is answered 401 with error kind \<open>unauthorized\<close> when the Authorization header
  is missing, when it does not start with \<open>Bearer \<close>, and when the token's expiry time
  is not after the current time. When the header is \<open>Bearer \<close> followed by a token that
  the library accepts under the key function of \<open>validateToken\<close> (an HMAC method, a
  signature that verifies under the secret, valid time claims), the request passes and
  the claims are on the context.
\<close>

theorem auth_outcomes:
  assumes "HeaderName acfg = ''Authorization''" and "TokenPrefix acfg = ''Bearer ''"
    and "protected acfg c"
  shows "(Get_hdr ''Authorization'' c = [] \<longrightarrow> is_unauthorized (Auth acfg decode verify now c))
    \<and> (\<not> HasPrefix (Get_hdr ''Authorization'' c) ''Bearer ''
          \<longrightarrow> is_unauthorized (Auth acfg decode verify now c))
    \<and> (\<forall>ts tok e. Get_hdr ''Authorization'' c = ''Bearer '' @ ts \<and> decode ts = Some tok
          \<and> ExpiresAt (token_claims tok) = Some e \<and> e \<le> now
          \<longrightarrow> is_unauthorized (Auth acfg decode verify now c))
    \<and> (\<forall>ts tok. Get_hdr ''Authorization'' c = ''Bearer '' @ ts
          \<and> ParseWithClaims decode verify now ts (keyFunc (JWTSecret acfg)) = Inr tok
          \<longrightarrow> (\<exists>c'. Auth acfg decode verify now c = Next c'
                 \<and> loc_claims c' = Some (ContextKey acfg, token_claims tok)
                 \<and> loc_user_id c' = Some (UserID (token_claims tok))
                 \<and> loc_tenant_id c' = Some (TenantID (token_claims tok))))"
proof (intro conjI allI impI)
  assume "Get_hdr ''Authorization'' c = []"
  then show "is_unauthorized (Auth acfg decode verify now c)"
    by (simp add: Auth_protected [OF assms(3)] assms(1) is_unauthorized_Done)
next
  assume "\<not> HasPrefix (Get_hdr ''Authorization'' c) ''Bearer ''"
  then show "is_unauthorized (Auth acfg decode verify now c)"
    by (simp add: Auth_protected [OF assms(3)] assms(1,2) TrimPrefix_no_prefix Let_def
        is_unauthorized_Done)
next
  fix ts tok e
  assume a: "Get_hdr ''Authorization'' c = ''Bearer '' @ ts \<and> decode ts = Some tok
          \<and> ExpiresAt (token_claims tok) = Some e \<and> e \<le> now"
  obtain err where v: "validateToken decode verify now ts (JWTSecret acfg) = Inl err"
    using a validateToken_expired by blast
  have h: "Get_hdr (HeaderName acfg) c = ''Bearer '' @ ts" using a assms(1) by simp
  have t: "TrimPrefix (Get_hdr (HeaderName acfg) c) (TokenPrefix acfg) = ts"
    unfolding h assms(2) by (rule TrimPrefix_append)
  have ne: "Get_hdr (HeaderName acfg) c \<noteq> []" unfolding h by simp
  have d: "ts \<noteq> Get_hdr (HeaderName acfg) c" unfolding h by (rule append_neq_self) simp
  show "is_unauthorized (Auth acfg decode verify now c)"
    unfolding Auth_protected [OF assms(3)] Let_def t
    using ne d v by (simp add: is_unauthorized_Done)
next
  fix ts tok
  assume a: "Get_hdr ''Authorization'' c = ''Bearer '' @ ts
          \<and> ParseWithClaims decode verify now ts (keyFunc (JWTSecret acfg)) = Inr tok"
  then have v: "validateToken decode verify now ts (JWTSecret acfg) = Inr (token_claims tok)"
    using validateToken_accepts by blast
  have h: "Get_hdr (HeaderName acfg) c = ''Bearer '' @ ts" using a assms(1) by simp
  have t: "TrimPrefix (Get_hdr (HeaderName acfg) c) (TokenPrefix acfg) = ts"
    unfolding h assms(2) by (rule TrimPrefix_append)
  have ne: "Get_hdr (HeaderName acfg) c \<noteq> []" unfolding h by simp
  have d: "ts \<noteq> Get_hdr (HeaderName acfg) c" unfolding h by (rule append_neq_self) simp
  show "\<exists>c'. Auth acfg decode verify now c = Next c'
                 \<and> loc_claims c' = Some (ContextKey acfg, token_claims tok)
                 \<and> loc_user_id c' = Some (UserID (token_claims tok))
                 \<and> loc_tenant_id c' = Some (TenantID (token_claims tok))"
    unfolding Auth_protected [OF assms(3)] Let_def t
    using ne d v by simp
qed

theorem auth_outcomes_witness:
  "is_unauthorized (Auth (DefaultAuthConfig ''s3cret'') decode0 verify0 5000 ctx0)
   \<and> is_unauthorized (Auth (DefaultAuthConfig ''s3cret'') decode0 verify0 5000
                         (with_authorization ''Basic abc''))
   \<and> is_unauthorized (Auth (DefaultAuthConfig ''s3cret'') decode0 verify0 5000
                         (with_authorization ''Bearer old''))
   \<and> (\<exists>c'. Auth (DefaultAuthConfig ''s3cret'') decode0 verify0 5000
                (with_authorization ''Bearer good'') = Next c'
            \<and> loc_claims c' = Some (''user'', token_claims tok_good)
            \<and> loc_user_id c' = Some ''u1'' \<and> loc_tenant_id c' = Some ''t1'')"
proof -
  let ?a = "DefaultAuthConfig ''s3cret''"
  have n: "HeaderName ?a = ''Authorization''" "TokenPrefix ?a = ''Bearer ''"
    "ContextKey ?a = ''user''" "JWTSecret ?a = ''s3cret''"
    by (simp_all add: DefaultAuthConfig_def)
  have p: "protected ?a ctx0" "protected ?a (with_authorization h)" for h
    by (simp_all add: protected_def DefaultAuthConfig_def ctx0_def with_authorization_def
        HasPrefix_def)
  have g: "Get_hdr ''Authorization'' ctx0 = []"
    "Get_hdr ''Authorization'' (with_authorization h) = h" for h
    by (simp_all add: Get_hdr_def header_get_def ctx0_def with_authorization_def)
  have b: "\<not> HasPrefix ''Basic abc'' ''Bearer ''" by (simp add: HasPrefix_def)
  have o: "decode0 ''old'' = Some tok_old" "ExpiresAt (token_claims tok_old) = Some 1000"
    by (simp_all add: decode0_def tok_old_def)
  have k: "ParseWithClaims decode0 verify0 5000 ''good'' (keyFunc ''s3cret'')
             = Inr (tok_good\<lparr>Valid := True\<rparr>)"
    by (simp add: ParseWithClaims_def decode0_def keyFunc_def verify0_def tok_good_def)
  have c: "token_claims (tok_good\<lparr>Valid := True\<rparr>) = token_claims tok_good"
    "UserID (token_claims tok_good) = ''u1''" "TenantID (token_claims tok_good) = ''t1''"
    by (simp_all add: tok_good_def)
  have r1: "is_unauthorized (Auth ?a decode0 verify0 5000 ctx0)"
    using auth_outcomes [of ?a ctx0 decode0 verify0 5000, OF n(1,2) p(1)] g(1) by blast
  have r2: "is_unauthorized (Auth ?a decode0 verify0 5000 (with_authorization ''Basic abc''))"
    using auth_outcomes [of ?a "with_authorization ''Basic abc''" decode0 verify0 5000,
        OF n(1,2) p(2)] b
    by (simp add: g(2))
  have "Get_hdr ''Authorization'' (with_authorization ''Bearer old'') = ''Bearer '' @ ''old''
      \<and> decode0 ''old'' = Some tok_old \<and> ExpiresAt (token_claims tok_old) = Some 1000
      \<and> (1000 :: int) \<le> 5000"
    by (simp add: g(2) o)
  then have r3: "is_unauthorized (Auth ?a decode0 verify0 5000 (with_authorization ''Bearer old''))"
    using auth_outcomes [of ?a "with_authorization ''Bearer old''" decode0 verify0 5000,
        OF n(1,2) p(2), THEN conjunct2, THEN conjunct2, THEN conjunct1]
    by blast
  have "Get_hdr ''Authorization'' (with_authorization ''Bearer good'') = ''Bearer '' @ ''good''
      \<and> ParseWithClaims decode0 verify0 5000 ''good'' (keyFunc (JWTSecret ?a))
           = Inr (tok_good\<lparr>Valid := True\<rparr>)"
    by (simp add: g(2) k n(4))
  then have "\<exists>c'. Auth ?a decode0 verify0 5000 (with_authorization ''Bearer good'') = Next c'
      \<and> loc_claims c' = Some (ContextKey ?a, token_claims (tok_good\<lparr>Valid := True\<rparr>))
      \<and> loc_user_id c' = Some (UserID (token_claims (tok_good\<lparr>Valid := True\<rparr>)))
      \<and> loc_tenant_id c' = Some (TenantID (token_claims (tok_good\<lparr>Valid := True\<rparr>)))"
    using auth_outcomes [of ?a "with_authorization ''Bearer good''" decode0 verify0 5000,
        OF n(1,2) p(2), THEN conjunct2, THEN conjunct2, THEN conjunct2]
    by blast
  then have r4: "\<exists>c'. Auth ?a decode0 verify0 5000 (with_authorization ''Bearer good'') = Next c'
            \<and> loc_claims c' = Some (''user'', token_claims tok_good)
            \<and> loc_user_id c' = Some ''u1'' \<and> loc_tenant_id c' = Some ''t1''"
    by (simp only: c n(3))
  show ?thesis using r1 r2 r3 r4 by blast
qed

end
